theory Spec2Isabelle
  imports Complex_Main
begin

section \<open>Values and exceptions\<close>

text \<open>
  The four scripts (\<^verbatim>\<open>CLT.py\<close>, \<^verbatim>\<open>Animated_Histogram.py\<close>,
  \<^verbatim>\<open>Interactive_Sample_Size_Slider.py\<close>, \<^verbatim>\<open>violin.py\<close>) share one piece of logic: draw
  a sample with replacement from an integer population
  (\<^verbatim>\<open>np.random.randint(1, 101, size=1000)\<close>), take its mean, collect the means, and
  summarise the collection by \<^verbatim>\<open>np.mean\<close> and \<^verbatim>\<open>np.std\<close>.

  A numpy float is modelled as the real number it stands for, or as the value
  \<^verbatim>\<open>nan\<close>, which numpy returns (with a warning, not an exception) for the mean of an
  empty array.
\<close>

datatype npfloat = NaN | Fin real

text \<open>The Python exceptions that the modelled statements can raise.\<close>

datatype py_error = ValueError | IndexError | FileNotFoundError | OSError | OtherError

text \<open>
  The error kinds of the specification. No statement of the scripts raises an exception of
  their own; \<^verbatim>\<open>ValueError\<close> is what numpy raises on an invalid argument, and
  \<^verbatim>\<open>FileNotFoundError\<close> and \<^verbatim>\<open>OSError\<close> are what the MP4 export catches as encoder failures.
\<close>

datatype error_kind = InvalidInput | InsufficientData | MissingExternalTool | Unclassified

fun kind_of :: "py_error \<Rightarrow> error_kind" where
  "kind_of ValueError = InvalidInput"
| "kind_of FileNotFoundError = MissingExternalTool"
| "kind_of OSError = MissingExternalTool"
| "kind_of IndexError = Unclassified"
| "kind_of OtherError = Unclassified"

section \<open>Arithmetic on 64-bit floats\<close>

text \<open>
  numpy computes a mean in \<^verbatim>\<open>float64\<close>: every number that enters or leaves an
  operation is rounded to the nearest number with a significand of 53 bits, a tie going
  to the one whose significand is even. \<open>fl64\<close> is this rounding of a real number. The
  exponent range is taken to be unbounded: overflow and subnormal numbers do not arise
  from the 64-bit integers and the means that are rounded below.
\<close>

definition round_half_even :: "real \<Rightarrow> int" where
  "round_half_even r =
     (let f = \<lfloor>r\<rfloor>; d = r - of_int f
      in if d < 1 / 2 then f else if 1 / 2 < d then f + 1 else if even f then f else f + 1)"

definition fl64 :: "real \<Rightarrow> real" where
  "fl64 x =
     (if x = 0 then 0
      else let e = \<lfloor>log 2 \<bar>x\<bar>\<rfloor>; u = 2 powi (e - 52)
           in u * of_int (round_half_even (x / u)))"

definition fadd :: "real \<Rightarrow> real \<Rightarrow> real" where
  "fadd a b = fl64 (a + b)"

definition fdiv :: "real \<Rightarrow> real \<Rightarrow> real" where
  "fdiv a b = fl64 (a / b)"

text \<open>
  The sum of a \<^verbatim>\<open>float64\<close> array is numpy's pairwise summation
  (\<^verbatim>\<open>DOUBLE_pairwise_sum\<close>): fewer than 8 numbers are added from left to right; up to 128
  numbers are added into 8 accumulators, the \<open>j\<close>-th taking the numbers at the positions
  \<open>j, j + 8, j + 16, ...\<close> of the full blocks of 8, the accumulators are added as
  \<open>((r0 + r1) + (r2 + r3)) + ((r4 + r5) + (r6 + r7))\<close> and the remaining numbers one by
  one; a longer array is split at half its length, rounded down to a multiple of 8, and
  the sums of the two parts are added. Every addition rounds.
\<close>

function acc8 :: "real list \<Rightarrow> real list \<Rightarrow> real list \<times> real list" where
  "acc8 r xs = (if length xs < 8 then (r, xs)
                else acc8 (map2 fadd r (take 8 xs)) (drop 8 xs))"
  by pat_completeness auto
termination
  by (relation "measure (\<lambda>(r, xs). length xs)") auto

declare acc8.simps [simp del]

definition combine8 :: "real list \<Rightarrow> real" where
  "combine8 r = fadd (fadd (fadd (r ! 0) (r ! 1)) (fadd (r ! 2) (r ! 3)))
                     (fadd (fadd (r ! 4) (r ! 5)) (fadd (r ! 6) (r ! 7)))"

function pairwise_sum :: "real list \<Rightarrow> real" where
  "pairwise_sum a =
     (if length a < 8 then foldl fadd 0 a
      else if length a \<le> 128
      then (case acc8 (take 8 a) (drop 8 a) of (r, rest) \<Rightarrow> foldl fadd (combine8 r) rest)
      else fadd (pairwise_sum (take (length a div 2 - (length a div 2) mod 8) a))
                (pairwise_sum (drop (length a div 2 - (length a div 2) mod 8) a)))"
  by pat_completeness auto
termination
proof (relation "measure length")
  show "wf (measure length)" by simp
next
  fix a :: "real list"
  assume "\<not> length a < 8" and "\<not> length a \<le> 128"
  then show "(take (length a div 2 - (length a div 2) mod 8) a, a) \<in> measure length"
    by simp
next
  fix a :: "real list"
  assume "\<not> length a < 8" and big: "\<not> length a \<le> 128"
  have "(length a div 2) mod 8 < 8" by simp
  moreover have "64 \<le> length a div 2" using big by linarith
  ultimately have "0 < length a div 2 - (length a div 2) mod 8" by linarith
  then show "(drop (length a div 2 - (length a div 2) mod 8) a, a) \<in> measure length"
    using big by simp
qed

declare pairwise_sum.simps [simp del]

text \<open>
  \<^verbatim>\<open>np.add.reduce\<close> starts from 0 and adds the pairwise sum of each block of the array
  that the iterator hands to the inner loop. An array that is \<^verbatim>\<open>float64\<close> already is
  one block; an integer array is converted to \<^verbatim>\<open>float64\<close> through the iterator's
  buffer, in blocks of 8192 numbers.
\<close>

function chunks :: "nat \<Rightarrow> 'a list \<Rightarrow> 'a list list" where
  "chunks k xs = (if k = 0 \<or> xs = [] then [] else take k xs # chunks k (drop k xs))"
  by pat_completeness auto
termination
  by (relation "measure (\<lambda>(k, xs). length xs)") auto

declare chunks.simps [simp del]

definition add_reduce :: "real list list \<Rightarrow> real" where
  "add_reduce blocks = foldl (\<lambda>io block. fadd io (pairwise_sum block)) 0 blocks"

text \<open>
  \<^verbatim>\<open>np.mean\<close> of a \<^verbatim>\<open>float64\<close> array, and \<^verbatim>\<open>ndarray.mean\<close> of an array of 64-bit
  integers, each of which is first rounded to \<^verbatim>\<open>float64\<close>: the sum divided by the
  number of elements, \<^verbatim>\<open>nan\<close> when there are none. The number of elements is far below
  \<open>2^53\<close> and converts to \<^verbatim>\<open>float64\<close> unchanged.
\<close>

definition np_mean :: "real list \<Rightarrow> npfloat" where
  "np_mean xs = (if xs = [] then NaN else Fin (fdiv (add_reduce [xs]) (real (length xs))))"

definition ndarray_mean :: "int list \<Rightarrow> npfloat" where
  "ndarray_mean ks =
     (if ks = [] then NaN
      else Fin (fdiv (add_reduce (chunks 8192 (map (\<lambda>k. fl64 (real_of_int k)) ks)))
                     (real (length ks))))"

section \<open>The random source\<close>

text \<open>
  The global generator of \<^verbatim>\<open>np.random\<close> is modelled by the stream of raw values it is
  going to produce. Drawing consumes a prefix of the stream and returns the rest, so the
  state of the generator is passed explicitly. \<^verbatim>\<open>randint(0, high, size=k)\<close> reduces the
  next \<open>k\<close> raw values into \<open>[0, high)\<close>.
\<close>

type_synonym rng = "nat \<Rightarrow> nat"

definition advance :: "nat \<Rightarrow> rng \<Rightarrow> rng" where
  "advance k g = (\<lambda>i. g (i + k))"

definition randint :: "nat \<Rightarrow> nat \<Rightarrow> rng \<Rightarrow> nat list \<times> rng" where
  "randint high k g = (map (\<lambda>i. g i mod high) [0..<k], advance k g)"

text \<open>
  \<^verbatim>\<open>np.random.choice(a, size=size, replace=True)\<close> for a one-dimensional array \<open>a\<close> and
  an integer \<open>size\<close>. numpy first rejects an empty \<open>a\<close> unless no sample is taken
  (\<^verbatim>\<open>'a' cannot be empty unless no samples are taken\<close>), returns an empty array for
  \<open>size = 0\<close>, rejects a negative \<open>size\<close> (\<^verbatim>\<open>negative dimensions are not allowed\<close>), and
  otherwise indexes \<open>a\<close> with \<open>size\<close> random indices below \<open>len(a)\<close>.
\<close>

definition np_random_choice :: "int list \<Rightarrow> int \<Rightarrow> rng \<Rightarrow> py_error + (int list \<times> rng)" where
  "np_random_choice a sz g =
     (if a = [] \<and> sz \<noteq> 0 then Inl ValueError
      else if sz = 0 then Inr ([], g)
      else if sz < 0 then Inl ValueError
      else (case randint (length a) (nat sz) g of
              (idx, g') \<Rightarrow> Inr (map (\<lambda>i. a ! i) idx, g')))"

section \<open>The sampling loop\<close>

text \<open>
  One sample mean, as in \<^verbatim>\<open>CLT.py\<close> lines 7 and 10, \<^verbatim>\<open>Animated_Histogram.py\<close> lines 36-37
  and the comprehensions of the slider and violin scripts:
  \<^verbatim>\<open>np.random.choice(population, size=sample_size, replace=True).mean()\<close>.
\<close>

definition draw_sample_mean :: "int list \<Rightarrow> int \<Rightarrow> rng \<Rightarrow> py_error + (npfloat \<times> rng)" where
  "draw_sample_mean population sample_size g =
     (case np_random_choice population sample_size g of
        Inl e \<Rightarrow> Inl e
      | Inr (sample, g') \<Rightarrow> Inr (ndarray_mean sample, g'))"

text \<open>
  The loop \<^verbatim>\<open>for i in range(count): sample_means.append(...)\<close> of \<^verbatim>\<open>CLT.py\<close> (and the
  comprehension \<^verbatim>\<open>[... for _ in range(1000)]\<close>), with the list built so far as an
  accumulator. An exception in one iteration ends the loop.
\<close>

fun sample_means_loop ::
  "int list \<Rightarrow> int \<Rightarrow> nat \<Rightarrow> rng \<Rightarrow> npfloat list \<Rightarrow> py_error + (npfloat list \<times> rng)" where
  "sample_means_loop population sample_size 0 g sample_means = Inr (sample_means, g)"
| "sample_means_loop population sample_size (Suc count) g sample_means =
     (case draw_sample_mean population sample_size g of
        Inl e \<Rightarrow> Inl e
      | Inr (m, g') \<Rightarrow> sample_means_loop population sample_size count g' (sample_means @ [m]))"

definition accumulate_sample_means ::
  "int list \<Rightarrow> int \<Rightarrow> nat \<Rightarrow> rng \<Rightarrow> py_error + (npfloat list \<times> rng)" where
  "accumulate_sample_means population sample_size count g =
     sample_means_loop population sample_size count g []"

section \<open>Summarising a collection of sample means\<close>

text \<open>
  The collection of sample means is a Python list (or an array) of numpy floats. A
  \<^verbatim>\<open>nan\<close> among them makes every sum, and so the mean and the standard deviation,
  \<^verbatim>\<open>nan\<close>.
\<close>

fun finite_values :: "npfloat list \<Rightarrow> real list option" where
  "finite_values [] = Some []"
| "finite_values (NaN # xs) = None"
| "finite_values (Fin x # xs) = map_option ((#) x) (finite_values xs)"

definition np_mean_f :: "npfloat list \<Rightarrow> npfloat" where
  "np_mean_f xs = (case finite_values xs of None \<Rightarrow> NaN | Some rs \<Rightarrow> np_mean rs)"

text \<open>
  \<^verbatim>\<open>np.var(a, ddof=ddof)\<close> as numpy computes it: the mean \<open>arrmean\<close>, the sum of the squared
  deviations from it, divided by \<open>max(n - ddof, 0)\<close>. The scripts never pass \<open>ddof\<close>, whose
  default is 0. For \<open>ddof \<le> 1\<close> a zero divisor only meets a zero numerator, and numpy
  returns \<^verbatim>\<open>nan\<close>; larger values of \<open>ddof\<close> are not used below. What is proved of the
  variance is which divisor it has, and its arithmetic is left exact.
\<close>

definition np_var :: "nat \<Rightarrow> real list \<Rightarrow> npfloat" where
  "np_var ddof xs =
     (if xs = [] then NaN
      else let arrmean = sum_list xs / real (length xs);
               ssq = sum_list (map (\<lambda>x. (x - arrmean) * (x - arrmean)) xs);
               rcount = length xs - ddof
           in if rcount = 0 then NaN else Fin (ssq / real rcount))"

definition np_std :: "nat \<Rightarrow> real list \<Rightarrow> npfloat" where
  "np_std ddof xs = (case np_var ddof xs of NaN \<Rightarrow> NaN | Fin v \<Rightarrow> Fin (sqrt v))"

definition np_std_f :: "nat \<Rightarrow> npfloat list \<Rightarrow> npfloat" where
  "np_std_f ddof xs = (case finite_values xs of None \<Rightarrow> NaN | Some rs \<Rightarrow> np_std ddof rs)"

text \<open>
  The two statements \<^verbatim>\<open>mu = sample_means.mean()\<close> and \<^verbatim>\<open>sigma = sample_means.std()\<close> of
  \<^verbatim>\<open>plot_clt_results\<close> (\<^verbatim>\<open>CLT.py\<close> lines 31-32), which the specification calls
  \<open>summarize\<close>. Neither statement raises; the result type has room for an exception so
  that this can be said.
\<close>

definition summarize :: "npfloat list \<Rightarrow> py_error + (npfloat \<times> npfloat)" where
  "summarize sample_means = Inr (np_mean_f sample_means, np_std_f 0 sample_means)"

section \<open>The animated histogram\<close>

text \<open>
  What one frame of \<^verbatim>\<open>animated_clt\<close> shows: the sample of the top plot, the number of bins
  of the bottom histogram when it is drawn, and the parameters of the normal curve when
  it is fitted.
\<close>

record frame_view =
  sample_shown :: "int list"
  hist_bins :: "nat option"
  fit :: "(npfloat \<times> npfloat) option"

text \<open>
  \<^verbatim>\<open>update(frame)\<close> of \<^verbatim>\<open>Animated_Histogram.py\<close> (lines 34-107): one sample is drawn and
  its mean appended to the closure variable \<^verbatim>\<open>sample_means\<close>; the histogram is drawn
  when the list has more than 5 elements, and inside that the curve is fitted when it
  has more than 30. The histogram takes its range from the means that are not
  \<^verbatim>\<open>nan\<close>; when there is none, \<^verbatim>\<open>ax2.hist\<close> raises \<^verbatim>\<open>ValueError\<close> (the range found is not
  finite) and the frame is lost.
\<close>

fun finite_part :: "npfloat list \<Rightarrow> real list" where
  "finite_part [] = []"
| "finite_part (NaN # xs) = finite_part xs"
| "finite_part (Fin x # xs) = x # finite_part xs"

definition animated_update ::
  "int list \<Rightarrow> int \<Rightarrow> npfloat list \<times> rng \<Rightarrow> py_error + ((npfloat list \<times> rng) \<times> frame_view)" where
  "animated_update population sample_size st =
     (case st of (sample_means, g) \<Rightarrow>
        (case np_random_choice population sample_size g of
           Inl e \<Rightarrow> Inl e
         | Inr (sample, g') \<Rightarrow>
             let sample_means' = sample_means @ [ndarray_mean sample]
             in if length sample_means' > 5 \<and> finite_part sample_means' = []
                then Inl ValueError
                else Inr ((sample_means', g'),
                     \<lparr> sample_shown = sample,
                       hist_bins = (if length sample_means' > 5
                                    then Some (min 30 (length sample_means' div 5)) else None),
                       fit = (if length sample_means' > 5
                              then (if length sample_means' > 30
                                    then Some (np_mean_f sample_means', np_std_f 0 sample_means')
                                    else None)
                              else None) \<rparr>)))"

text \<open>The frames \<open>0, ..., n_frames - 1\<close> in turn, each calling \<^verbatim>\<open>update\<close>.\<close>

fun animated_frames ::
  "int list \<Rightarrow> int \<Rightarrow> nat \<Rightarrow> npfloat list \<times> rng \<Rightarrow> py_error + (npfloat list \<times> rng)" where
  "animated_frames population sample_size 0 st = Inr st"
| "animated_frames population sample_size (Suc n_frames) st =
     (case animated_update population sample_size st of
        Inl e \<Rightarrow> Inl e
      | Inr (st', v) \<Rightarrow> animated_frames population sample_size n_frames st')"

subsection \<open>The export in the main block\<close>

text \<open>
  The main block of \<^verbatim>\<open>Animated_Histogram.py\<close> (lines 119-152). Its environment is what
  \<^verbatim>\<open>shutil.which('ffmpeg')\<close> returns and how the two calls of \<^verbatim>\<open>anim.save\<close> end, should
  they be made. A run is recorded by what it prints, the files it asks \<^verbatim>\<open>anim.save\<close> to
  write, the files written, and the exception that ends it, if any.
\<close>

datatype outcome = Done | Raises py_error string

record env =
  ffmpeg_path :: "string option"
  mp4_save :: outcome
  gif_save :: outcome

record run =
  stdout :: "string list"
  save_calls :: "string list"
  files :: "string list"
  unhandled :: "py_error option"

definition print :: "string \<Rightarrow> run \<Rightarrow> run" where
  "print s r = r\<lparr>stdout := stdout r @ [s]\<rparr>"

definition call_save :: "string \<Rightarrow> run \<Rightarrow> run" where
  "call_save f r = r\<lparr>save_calls := save_calls r @ [f]\<rparr>"

definition written :: "string \<Rightarrow> run \<Rightarrow> run" where
  "written f r = r\<lparr>files := files r @ [f]\<rparr>"

definition skip_message :: string where
  "skip_message =
     ''Skipping MP4: ffmpeg not found on PATH. Install ffmpeg or add it to PATH to enable MP4 output.''"

text \<open>Lines 140-152: the GIF export and the closing messages.\<close>

definition export_gif :: "env \<Rightarrow> run \<Rightarrow> run" where
  "export_gif e r =
     (let r1 = call_save ''clt_animation1.gif'' (print ''Saving as GIF...'' r)
      in case gif_save e of
           Raises x msg \<Rightarrow> r1\<lparr>unhandled := Some x\<rparr>
         | Done \<Rightarrow>
             print ''   - Or drag-and-drop GIF directly into Medium editor''
               (print ''   - Upload MP4 to YouTube/Drive and embed link''
                 (print ''For Medium blog:''
                   (print (CHR 0x0A # ''Animation saved successfully!'')
                     (print ''Saved as clt_animation.gif''
                       (written ''clt_animation1.gif'' r1))))))"

text \<open>
  Lines 124-138, then the GIF export: the MP4 export is skipped when \<^verbatim>\<open>ffmpeg\<close> is not
  found, and abandoned when saving raises \<^verbatim>\<open>FileNotFoundError\<close> or \<^verbatim>\<open>OSError\<close>; any
  other exception ends the run.
\<close>

definition main :: "env \<Rightarrow> run" where
  "main e =
     (let r0 = print ''Saving as MP4...''
                 (print ''Generating CLT animation...''
                   \<lparr>stdout = [], save_calls = [], files = [], unhandled = None\<rparr>)
      in case ffmpeg_path e of
           None \<Rightarrow> export_gif e (print skip_message r0)
         | Some path \<Rightarrow>
             (let r1 = call_save ''clt_animation.mp4'' r0
              in case mp4_save e of
                   Done \<Rightarrow>
                     export_gif e (print ''Saved as clt_animation.mp4''
                                     (written ''clt_animation.mp4'' r1))
                 | Raises x msg \<Rightarrow>
                     if x = FileNotFoundError \<or> x = OSError
                     then export_gif e (print (''Skipping MP4 due to ffmpeg error: '' @ msg) r1)
                     else r1\<lparr>unhandled := Some x\<rparr>))"

section \<open>The slider and violin animations\<close>

text \<open>\<^verbatim>\<open>list(range(start, stop, step))\<close> for a positive \<open>step\<close>.\<close>

definition py_range :: "int \<Rightarrow> int \<Rightarrow> int \<Rightarrow> int list" where
  "py_range start stop step =
     map (\<lambda>k. start + int k * step) [0..<nat ((stop - start + step - 1) div step)]"

text \<open>\<^verbatim>\<open>xs[i]\<close> for an index \<open>i \<ge> 0\<close>, and \<^verbatim>\<open>[xs[i] for i in indices]\<close>.\<close>

definition py_index :: "'a list \<Rightarrow> nat \<Rightarrow> py_error + 'a" where
  "py_index xs i = (if i < length xs then Inr (xs ! i) else Inl IndexError)"

fun index_all :: "'a list \<Rightarrow> nat list \<Rightarrow> py_error + 'a list" where
  "index_all xs [] = Inr []"
| "index_all xs (i # is) =
     (case py_index xs i of
        Inl e \<Rightarrow> Inl e
      | Inr x \<Rightarrow> (case index_all xs is of Inl e \<Rightarrow> Inl e | Inr ys \<Rightarrow> Inr (x # ys)))"

text \<open>
  \<^verbatim>\<open>update(frame)\<close> of \<^verbatim>\<open>Interactive_Sample_Size_Slider.py\<close> (lines 44-134): the sample
  size of the frame, 1000 fresh sample means of that size, and their mean and standard
  deviation, computed whatever the collection is.
\<close>

definition sample_sizes :: "int list" where
  "sample_sizes = py_range 5 105 5"

definition slider_update ::
  "int list \<Rightarrow> nat \<Rightarrow> rng \<Rightarrow> py_error + ((int \<times> npfloat \<times> npfloat) \<times> rng)" where
  "slider_update population frame g =
     (case py_index sample_sizes frame of
        Inl e \<Rightarrow> Inl e
      | Inr sample_size \<Rightarrow>
          (case accumulate_sample_means population sample_size 1000 g of
             Inl e \<Rightarrow> Inl e
           | Inr (sample_means, g') \<Rightarrow>
               Inr ((sample_size, np_mean_f sample_means, np_std_f 0 sample_means), g')))"

text \<open>
  \<^verbatim>\<open>np.linspace(start, stop, num, dtype=int)\<close> for \<open>0 \<le> start \<le> stop\<close>: the points
  \<open>start + i * step\<close> with \<open>step = (stop - start) / (num - 1)\<close>, the last one set to
  \<open>stop\<close>, each rounded down.
\<close>

definition np_linspace_int :: "nat \<Rightarrow> nat \<Rightarrow> nat \<Rightarrow> nat list" where
  "np_linspace_int start stop num =
     (if num = 0 then []
      else if num = 1 then [start]
      else map (\<lambda>i. nat \<lfloor>real start + real i * ((real stop - real start) / real (num - 1))\<rfloor>)
             [0..<num - 1] @ [stop])"

text \<open>
  \<^verbatim>\<open>update(frame)\<close> of \<^verbatim>\<open>violin.py\<close> (lines 38-108). The sample sizes shown are the first
  \<open>frame + 1\<close> of the progression when these are at most 4, and otherwise at most 8 of
  them, picked at evenly spaced positions.
\<close>

definition sample_size_progression :: "int \<Rightarrow> int list" where
  "sample_size_progression max_sample_size = py_range 5 (max_sample_size + 1) 5"

definition display_sizes :: "int list \<Rightarrow> py_error + int list" where
  "display_sizes current_sample_sizes =
     (if length current_sample_sizes \<le> 4 then Inr current_sample_sizes
      else index_all current_sample_sizes
             (np_linspace_int 0 (length current_sample_sizes - 1)
                (min 8 (length current_sample_sizes))))"

text \<open>The loop over the displayed sizes: 1000 sample means for each, in turn.\<close>

fun violin_means ::
  "int list \<Rightarrow> int list \<Rightarrow> rng \<Rightarrow> py_error + ((int \<times> npfloat list) list \<times> rng)" where
  "violin_means population [] g = Inr ([], g)"
| "violin_means population (sz # sizes) g =
     (case accumulate_sample_means population sz 1000 g of
        Inl e \<Rightarrow> Inl e
      | Inr (means, g') \<Rightarrow>
          (case violin_means population sizes g' of
             Inl e \<Rightarrow> Inl e
           | Inr (rest, g'') \<Rightarrow> Inr ((sz, means) # rest, g'')))"

text \<open>
  The frame: the violins, each a sample size with its means, and the largest sample size
  reached, which the progress text reads as \<^verbatim>\<open>current_sample_sizes[-1]\<close>. When the
  progression is empty (\<open>max_sample_size < 5\<close>) no frame is drawn: \<^verbatim>\<open>ax.violinplot\<close> is
  given an empty dataset and raises \<^verbatim>\<open>ValueError\<close> on its minimum, before the progress
  text could raise \<^verbatim>\<open>IndexError\<close>.
\<close>

definition violin_update ::
  "int list \<Rightarrow> int \<Rightarrow> nat \<Rightarrow> rng \<Rightarrow> py_error + ((int \<times> npfloat list) list \<times> int \<times> rng)" where
  "violin_update population max_sample_size frame g =
     (let current_sample_sizes = take (frame + 1) (sample_size_progression max_sample_size)
      in case display_sizes current_sample_sizes of
           Inl e \<Rightarrow> Inl e
         | Inr sizes \<Rightarrow>
             (case violin_means population sizes g of
                Inl e \<Rightarrow> Inl e
              | Inr (violins, g') \<Rightarrow>
                  if violins = [] then Inl ValueError
                  else Inr (violins, last current_sample_sizes, g')))"

section \<open>Properties of the rounding\<close>

text \<open>
  Rounding keeps a number between any two integers that enclose it, as long as the
  number is at most \<open>2^53\<close> in magnitude; in particular it keeps such an integer as
  it is.
\<close>

lemma rhe_lower: "of_int m \<le> r \<Longrightarrow> m \<le> round_half_even r"
proof -
  assume "of_int m \<le> r"
  then have "m \<le> \<lfloor>r\<rfloor>" by (simp add: le_floor_iff)
  then show ?thesis by (auto simp: round_half_even_def Let_def)
qed

lemma rhe_upper: "r \<le> of_int m \<Longrightarrow> round_half_even r \<le> m"
proof -
  assume a: "r \<le> of_int m"
  have f: "\<lfloor>r\<rfloor> \<le> m" using a by (simp add: floor_le_iff)
  show ?thesis
  proof (cases "\<lfloor>r\<rfloor> = m")
    case True
    then have "r = of_int m" using a by (metis of_int_floor_le order_antisym)
    then show ?thesis by (simp add: round_half_even_def)
  next
    case False
    then have "\<lfloor>r\<rfloor> + 1 \<le> m" using f by simp
    then show ?thesis by (auto simp: round_half_even_def Let_def)
  qed
qed

lemma rhe_int [simp]: "round_half_even (of_int k) = k"
  by (simp add: round_half_even_def)

lemma exponent_small:
  assumes "x \<noteq> 0" and "\<bar>x\<bar> < 2 ^ 53"
  shows "\<lfloor>log 2 \<bar>x\<bar>\<rfloor> \<le> 52"
proof -
  have "log 2 \<bar>x\<bar> < 53"
    using assms by (simp add: log_less_iff)
  then have "\<lfloor>log 2 \<bar>x\<bar>\<rfloor> < 53" by (simp add: floor_less_iff)
  then show ?thesis by simp
qed

lemma fl64_between_small:
  assumes "\<bar>x\<bar> < 2 ^ 53" and "of_int a \<le> x" and "x \<le> of_int b"
  shows "of_int a \<le> fl64 x \<and> fl64 x \<le> of_int b"
proof (cases "x = 0")
  case True
  then show ?thesis using assms by (simp add: fl64_def)
next
  case False
  define e where "e = \<lfloor>log 2 \<bar>x\<bar>\<rfloor>"
  define N :: int where "N = 2 ^ nat (52 - e)"
  have e: "e \<le> 52" unfolding e_def by (rule exponent_small [OF False assms(1)])
  have Npos: "0 < N" by (simp add: N_def)
  have u: "(2::real) powi (e - 52) = 1 / of_int N"
    using e by (simp add: N_def power_int_def inverse_eq_divide power_inverse [symmetric])
       (simp add: field_simps)
  have fl: "fl64 x = of_int (round_half_even (x * of_int N)) / of_int N"
    using False by (simp add: fl64_def Let_def e_def [symmetric] u)
  have "of_int (a * N) \<le> x * of_int N" using assms(2) Npos by (simp add: mult_right_mono)
  then have lo: "a * N \<le> round_half_even (x * of_int N)" by (rule rhe_lower)
  have "x * of_int N \<le> of_int (b * N)" using assms(3) Npos by (simp add: mult_right_mono)
  then have hi: "round_half_even (x * of_int N) \<le> b * N" by (rule rhe_upper)
  have "real_of_int (a * N) \<le> of_int (round_half_even (x * of_int N))"
    using lo by (simp only: of_int_le_iff)
  then have 1: "of_int a \<le> fl64 x" unfolding fl using Npos by (simp add: field_simps)
  have "real_of_int (round_half_even (x * of_int N)) \<le> of_int (b * N)"
    using hi by (simp only: of_int_le_iff)
  then have 2: "fl64 x \<le> of_int b" unfolding fl using Npos by (simp add: field_simps)
  from 1 2 show ?thesis ..
qed

lemma fl64_pow53: "fl64 (2 ^ 53) = 2 ^ 53" "fl64 (- (2 ^ 53)) = - (2 ^ 53)"
proof -
  have e: "\<lfloor>log 2 (2 ^ 53 :: real)\<rfloor> = 53"
    by (simp add: floor_log_eq_powr_iff)
  have "(2 ^ 53 :: real) / 2 = of_int (2 ^ 52)" by simp
  then have r: "round_half_even ((2 ^ 53 :: real) / 2) = 2 ^ 52"
    by (simp only: rhe_int)
  have "- (2 ^ 53 :: real) / 2 = of_int (- (2 ^ 52))" by simp
  then have r': "round_half_even (- (2 ^ 53 :: real) / 2) = - (2 ^ 52)"
    by (simp only: rhe_int)
  show "fl64 (2 ^ 53) = 2 ^ 53"
    using e r by (simp add: fl64_def Let_def)
  show "fl64 (- (2 ^ 53)) = - (2 ^ 53)"
    using e r' by (simp add: fl64_def Let_def)
qed

lemma fl64_between:
  assumes "\<bar>x\<bar> \<le> 2 ^ 53" and "of_int a \<le> x" and "x \<le> of_int b"
  shows "of_int a \<le> fl64 x \<and> fl64 x \<le> of_int b"
proof (cases "\<bar>x\<bar> < 2 ^ 53")
  case True
  then show ?thesis using assms(2,3) by (rule fl64_between_small)
next
  case False
  then have "x = 2 ^ 53 \<or> x = - (2 ^ 53)" using assms(1) by (auto simp: abs_if split: if_splits)
  then have "fl64 x = x" using fl64_pow53 by auto
  then show ?thesis using assms(2,3) by simp
qed

lemma fl64_int:
  assumes "\<bar>real_of_int k\<bar> \<le> 2 ^ 53"
  shows "fl64 (of_int k) = of_int k"
  using fl64_between [OF assms, of k k] by simp

lemma fl64_tie: "fl64 9007199254740993 = 9007199254740992"
proof -
  have e: "\<lfloor>log 2 (9007199254740993 :: real)\<rfloor> = 53"
    by (simp add: floor_log_eq_powr_iff)
  have f: "\<lfloor>9007199254740993 / 2 :: real\<rfloor> = 4503599627370496"
    by (simp add: floor_eq_iff)
  have r: "round_half_even (9007199254740993 / 2) = 4503599627370496"
    unfolding round_half_even_def Let_def f by simp
  show ?thesis using e r by (simp add: fl64_def Let_def)
qed

section \<open>Sums that do not round\<close>

text \<open>
  When the numbers are integers and their absolute values add up to at most \<open>2^53\<close>,
  every partial sum that the pairwise summation forms is such an integer too, and the
  sum is the exact one.
\<close>

lemma fadd_exact:
  assumes "a \<in> \<int>" and "b \<in> \<int>" and "\<bar>a\<bar> + \<bar>b\<bar> \<le> 2 ^ 53"
  shows "fadd a b = a + b"
proof -
  from assms(1,2) obtain i j where "a = of_int i" "b = of_int j" by (auto elim!: Ints_cases)
  then have s: "a + b = of_int (i + j)" by simp
  have "\<bar>real_of_int (i + j)\<bar> \<le> 2 ^ 53" using assms(3) s by linarith
  from fl64_int [OF this] show ?thesis unfolding fadd_def s .
qed

lemma sum_list_Ints: "\<forall>x\<in>set xs. x \<in> \<int> \<Longrightarrow> sum_list xs \<in> (\<int> :: real set)"
  by (induction xs) auto

lemma abs_sum_list: "\<bar>sum_list xs\<bar> \<le> (\<Sum>x\<leftarrow>xs. \<bar>x :: real\<bar>)"
  by (induction xs) auto

lemma abs_sum_nonneg: "0 \<le> (\<Sum>x\<leftarrow>xs. \<bar>x :: real\<bar>)"
  by (induction xs) auto

lemma foldl_fadd_exact:
  assumes "r \<in> \<int>" and "\<forall>x\<in>set xs. x \<in> \<int>" and "\<bar>r\<bar> + (\<Sum>x\<leftarrow>xs. \<bar>x\<bar>) \<le> 2 ^ 53"
  shows "foldl fadd r xs = r + sum_list xs"
  using assms
proof (induction xs arbitrary: r)
  case Nil
  then show ?case by simp
next
  case (Cons x xs)
  have nn: "0 \<le> (\<Sum>x\<leftarrow>xs. \<bar>x\<bar>)" by (rule abs_sum_nonneg)
  have fa: "fadd r x = r + x"
    using Cons.prems nn by (intro fadd_exact) auto
  have "foldl fadd (r + x) xs = (r + x) + sum_list xs"
  proof (rule Cons.IH)
    show "r + x \<in> \<int>" using Cons.prems by auto
    show "\<forall>x\<in>set xs. x \<in> \<int>" using Cons.prems by auto
    show "\<bar>r + x\<bar> + (\<Sum>x\<leftarrow>xs. \<bar>x\<bar>) \<le> 2 ^ 53" using Cons.prems(3) by auto
  qed
  then show ?case by (simp add: fa)
qed

lemma map2_fadd_exact:
  assumes "length r = length b" and "\<forall>x\<in>set r. x \<in> \<int>" and "\<forall>x\<in>set b. x \<in> \<int>"
    and "(\<Sum>x\<leftarrow>r. \<bar>x\<bar>) + (\<Sum>x\<leftarrow>b. \<bar>x\<bar>) \<le> 2 ^ 53"
  shows "map2 fadd r b = map2 (+) r b
         \<and> sum_list (map2 (+) r b) = sum_list r + sum_list b
         \<and> (\<Sum>x\<leftarrow>map2 (+) r b. \<bar>x\<bar>) \<le> (\<Sum>x\<leftarrow>r. \<bar>x\<bar>) + (\<Sum>x\<leftarrow>b. \<bar>x\<bar>)
         \<and> (\<forall>x\<in>set (map2 (+) r b). x \<in> \<int>)"
  using assms
proof (induction r b rule: list_induct2)
  case Nil
  then show ?case by simp
next
  case (Cons x xs y ys)
  have nn: "0 \<le> (\<Sum>x\<leftarrow>xs. \<bar>x\<bar>)" "0 \<le> (\<Sum>x\<leftarrow>ys. \<bar>x\<bar>)" by (rule abs_sum_nonneg)+
  have fa: "fadd x y = x + y"
    using Cons.prems nn by (intro fadd_exact) auto
  have ih: "map2 fadd xs ys = map2 (+) xs ys
         \<and> sum_list (map2 (+) xs ys) = sum_list xs + sum_list ys
         \<and> (\<Sum>x\<leftarrow>map2 (+) xs ys. \<bar>x\<bar>) \<le> (\<Sum>x\<leftarrow>xs. \<bar>x\<bar>) + (\<Sum>x\<leftarrow>ys. \<bar>x\<bar>)
         \<and> (\<forall>x\<in>set (map2 (+) xs ys). x \<in> \<int>)"
  proof (rule Cons.IH)
    show "\<forall>x\<in>set xs. x \<in> \<int>" "\<forall>x\<in>set ys. x \<in> \<int>" using Cons.prems by auto
    show "(\<Sum>x\<leftarrow>xs. \<bar>x\<bar>) + (\<Sum>x\<leftarrow>ys. \<bar>x\<bar>) \<le> 2 ^ 53" using Cons.prems(3) by auto
  qed
  have "x + y \<in> \<int>" using Cons.prems by auto
  with ih fa show ?case by auto
qed

lemma abs_sum_take_drop:
  "(\<Sum>x\<leftarrow>take k xs. \<bar>x :: real\<bar>) + (\<Sum>x\<leftarrow>drop k xs. \<bar>x\<bar>) = (\<Sum>x\<leftarrow>xs. \<bar>x\<bar>)"
  by (metis append_take_drop_id map_append sum_list.append)

lemma sum_take_drop: "sum_list (take k xs) + sum_list (drop k xs) = sum_list (xs :: real list)"
  by (metis append_take_drop_id sum_list.append)

lemma acc8_exact:
  assumes "length r = 8" and "\<forall>x\<in>set r. x \<in> \<int>" and "\<forall>x\<in>set xs. x \<in> \<int>"
    and "(\<Sum>x\<leftarrow>r. \<bar>x\<bar>) + (\<Sum>x\<leftarrow>xs. \<bar>x\<bar>) \<le> 2 ^ 53"
  shows "\<exists>r' rest. acc8 r xs = (r', rest) \<and> length r' = 8
           \<and> (\<forall>x\<in>set r'. x \<in> \<int>) \<and> (\<forall>x\<in>set rest. x \<in> \<int>)
           \<and> (\<Sum>x\<leftarrow>r'. \<bar>x\<bar>) + (\<Sum>x\<leftarrow>rest. \<bar>x\<bar>) \<le> (\<Sum>x\<leftarrow>r. \<bar>x\<bar>) + (\<Sum>x\<leftarrow>xs. \<bar>x\<bar>)
           \<and> sum_list r' + sum_list rest = sum_list r + sum_list xs"
  using assms
proof (induction r xs rule: acc8.induct)
  case (1 r xs)
  show ?case
  proof (cases "length xs < 8")
    case True
    then show ?thesis using "1.prems" by (simp add: acc8.simps)
  next
    case False
    let ?b = "take 8 xs" and ?d = "drop 8 xs"
    have lb: "length r = length ?b" using False "1.prems"(1) by simp
    have ib: "\<forall>x\<in>set ?b. x \<in> \<int>" using "1.prems"(3) by (meson in_set_takeD)
    have id: "\<forall>x\<in>set ?d. x \<in> \<int>" using "1.prems"(3) by (meson in_set_dropD)
    have split: "(\<Sum>x\<leftarrow>?b. \<bar>x\<bar>) + (\<Sum>x\<leftarrow>?d. \<bar>x\<bar>) = (\<Sum>x\<leftarrow>xs. \<bar>x\<bar>)"
      by (rule abs_sum_take_drop)
    have nn: "0 \<le> (\<Sum>x\<leftarrow>?d. \<bar>x\<bar>)" by (rule abs_sum_nonneg)
    have bb: "(\<Sum>x\<leftarrow>r. \<bar>x\<bar>) + (\<Sum>x\<leftarrow>?b. \<bar>x\<bar>) \<le> 2 ^ 53"
      using "1.prems"(4) split nn by linarith
    from map2_fadd_exact [OF lb "1.prems"(2) ib bb]
    have m: "map2 fadd r ?b = map2 (+) r ?b"
      "sum_list (map2 (+) r ?b) = sum_list r + sum_list ?b"
      "(\<Sum>x\<leftarrow>map2 (+) r ?b. \<bar>x\<bar>) \<le> (\<Sum>x\<leftarrow>r. \<bar>x\<bar>) + (\<Sum>x\<leftarrow>?b. \<bar>x\<bar>)"
      "\<forall>x\<in>set (map2 (+) r ?b). x \<in> \<int>"
      by auto
    have l': "length (map2 fadd r ?b) = 8" using lb "1.prems"(1) by simp
    have bound': "(\<Sum>x\<leftarrow>map2 fadd r ?b. \<bar>x\<bar>) + (\<Sum>x\<leftarrow>?d. \<bar>x\<bar>) \<le> 2 ^ 53"
      unfolding m(1) using m(3) split "1.prems"(4) by linarith
    from "1.IH" [OF False l' _ id bound'] m(1,4)
    obtain r' rest where rr: "acc8 (map2 fadd r ?b) ?d = (r', rest)" "length r' = 8"
      "\<forall>x\<in>set r'. x \<in> \<int>" "\<forall>x\<in>set rest. x \<in> \<int>"
      "(\<Sum>x\<leftarrow>r'. \<bar>x\<bar>) + (\<Sum>x\<leftarrow>rest. \<bar>x\<bar>)
         \<le> (\<Sum>x\<leftarrow>map2 fadd r ?b. \<bar>x\<bar>) + (\<Sum>x\<leftarrow>?d. \<bar>x\<bar>)"
      "sum_list r' + sum_list rest = sum_list (map2 fadd r ?b) + sum_list ?d"
      by auto
    have a: "acc8 r xs = (r', rest)" using False rr(1) by (subst acc8.simps) simp
    have b: "(\<Sum>x\<leftarrow>r'. \<bar>x\<bar>) + (\<Sum>x\<leftarrow>rest. \<bar>x\<bar>) \<le> (\<Sum>x\<leftarrow>r. \<bar>x\<bar>) + (\<Sum>x\<leftarrow>xs. \<bar>x\<bar>)"
      using rr(5) [unfolded m(1)] m(3) split by linarith
    have c: "sum_list r' + sum_list rest = sum_list r + sum_list xs"
      using rr(6) [unfolded m(1)] m(2) sum_take_drop [of 8 xs] by linarith
    from a rr(2,3,4) b c show ?thesis by blast
  qed
qed

lemma list8:
  assumes "length r = 8"
  obtains r0 r1 r2 r3 r4 r5 r6 r7 where "r = [r0, r1, r2, r3, r4, r5, r6, r7]"
  using assms by (auto simp: numeral_eq_Suc length_Suc_conv)

lemma fadd_exact_bound:
  assumes "a \<in> \<int>" and "b \<in> \<int>" and "\<bar>a\<bar> \<le> A" and "\<bar>b\<bar> \<le> B" and "A + B \<le> 2 ^ 53"
  shows "fadd a b = a + b \<and> a + b \<in> \<int> \<and> \<bar>a + b\<bar> \<le> A + B"
proof -
  have "\<bar>a\<bar> + \<bar>b\<bar> \<le> 2 ^ 53" using assms(3,4,5) by (rule order_trans [OF add_mono])
  then have "fadd a b = a + b" by (rule fadd_exact [OF assms(1,2)])
  moreover have "a + b \<in> \<int>" using assms(1,2) by (rule Ints_add)
  moreover have "\<bar>a + b\<bar> \<le> A + B"
    using abs_triangle_ineq [of a b] add_mono [OF assms(3,4)] by (rule order_trans)
  ultimately show ?thesis by blast
qed

lemma combine8_exact:
  assumes "length r = 8" and "\<forall>x\<in>set r. x \<in> \<int>" and "(\<Sum>x\<leftarrow>r. \<bar>x\<bar>) \<le> 2 ^ 53"
  shows "combine8 r = sum_list r"
proof -
  from assms(1) obtain r0 r1 r2 r3 r4 r5 r6 r7 where r: "r = [r0, r1, r2, r3, r4, r5, r6, r7]"
    by (rule list8)
  have i: "r0 \<in> \<int>" "r1 \<in> \<int>" "r2 \<in> \<int>" "r3 \<in> \<int>" "r4 \<in> \<int>" "r5 \<in> \<int>" "r6 \<in> \<int>" "r7 \<in> \<int>"
    using assms(2) unfolding r by auto
  define a0 a1 a2 a3 a4 a5 a6 a7
    where a: "a0 = \<bar>r0\<bar>" "a1 = \<bar>r1\<bar>" "a2 = \<bar>r2\<bar>" "a3 = \<bar>r3\<bar>"
      "a4 = \<bar>r4\<bar>" "a5 = \<bar>r5\<bar>" "a6 = \<bar>r6\<bar>" "a7 = \<bar>r7\<bar>"
  have le: "\<bar>r0\<bar> \<le> a0" "\<bar>r1\<bar> \<le> a1" "\<bar>r2\<bar> \<le> a2" "\<bar>r3\<bar> \<le> a3"
    "\<bar>r4\<bar> \<le> a4" "\<bar>r5\<bar> \<le> a5" "\<bar>r6\<bar> \<le> a6" "\<bar>r7\<bar> \<le> a7"
    by (simp_all add: a)
  have nn: "0 \<le> a0" "0 \<le> a1" "0 \<le> a2" "0 \<le> a3" "0 \<le> a4" "0 \<le> a5" "0 \<le> a6" "0 \<le> a7"
    by (simp_all add: a)
  have b: "a0 + a1 + a2 + a3 + a4 + a5 + a6 + a7 \<le> 2 ^ 53"
    using assms(3) unfolding r a by simp
  have b01: "a0 + a1 \<le> 2 ^ 53" and b23: "a2 + a3 \<le> 2 ^ 53"
    and b45: "a4 + a5 \<le> 2 ^ 53" and b67: "a6 + a7 \<le> 2 ^ 53"
    and b03: "(a0 + a1) + (a2 + a3) \<le> 2 ^ 53" and b47: "(a4 + a5) + (a6 + a7) \<le> 2 ^ 53"
    and b07: "((a0 + a1) + (a2 + a3)) + ((a4 + a5) + (a6 + a7)) \<le> 2 ^ 53"
    using b nn by linarith+
  note s01 = fadd_exact_bound [OF i(1) i(2) le(1) le(2) b01]
  note s23 = fadd_exact_bound [OF i(3) i(4) le(3) le(4) b23]
  note s45 = fadd_exact_bound [OF i(5) i(6) le(5) le(6) b45]
  note s67 = fadd_exact_bound [OF i(7) i(8) le(7) le(8) b67]
  note s03 = fadd_exact_bound [OF s01 [THEN conjunct2, THEN conjunct1]
      s23 [THEN conjunct2, THEN conjunct1] s01 [THEN conjunct2, THEN conjunct2]
      s23 [THEN conjunct2, THEN conjunct2] b03]
  note s47 = fadd_exact_bound [OF s45 [THEN conjunct2, THEN conjunct1]
      s67 [THEN conjunct2, THEN conjunct1] s45 [THEN conjunct2, THEN conjunct2]
      s67 [THEN conjunct2, THEN conjunct2] b47]
  note s07 = fadd_exact_bound [OF s03 [THEN conjunct2, THEN conjunct1]
      s47 [THEN conjunct2, THEN conjunct1] s03 [THEN conjunct2, THEN conjunct2]
      s47 [THEN conjunct2, THEN conjunct2] b07]
  show ?thesis unfolding r combine8_def
    by (simp add: s01 [THEN conjunct1] s23 [THEN conjunct1] s45 [THEN conjunct1]
          s67 [THEN conjunct1] s03 [THEN conjunct1] s47 [THEN conjunct1] s07 [THEN conjunct1])
qed

lemma pairwise_sum_exact:
  assumes "\<forall>x\<in>set a. x \<in> \<int>" and "(\<Sum>x\<leftarrow>a. \<bar>x\<bar>) \<le> 2 ^ 53"
  shows "pairwise_sum a = sum_list a"
  using assms
proof (induction a rule: pairwise_sum.induct)
  case (1 a)
  show ?case
  proof (cases "length a < 8")
    case True
    have "foldl fadd 0 a = 0 + sum_list a"
      using "1.prems" by (intro foldl_fadd_exact) auto
    then show ?thesis using True by (subst pairwise_sum.simps) simp
  next
    case False
    show ?thesis
    proof (cases "length a \<le> 128")
      case True
      let ?r = "take 8 a" and ?xs = "drop 8 a"
      have l: "length ?r = 8" using False by simp
      have ir: "\<forall>x\<in>set ?r. x \<in> \<int>" using "1.prems"(1) by (meson in_set_takeD)
      have ix: "\<forall>x\<in>set ?xs. x \<in> \<int>" using "1.prems"(1) by (meson in_set_dropD)
      have bd: "(\<Sum>x\<leftarrow>?r. \<bar>x\<bar>) + (\<Sum>x\<leftarrow>?xs. \<bar>x\<bar>) \<le> 2 ^ 53"
        using "1.prems"(2) abs_sum_take_drop [of 8 a] by simp
      from acc8_exact [OF l ir ix bd]
      obtain r' rest where rr: "acc8 ?r ?xs = (r', rest)" "length r' = 8"
        "\<forall>x\<in>set r'. x \<in> \<int>" "\<forall>x\<in>set rest. x \<in> \<int>"
        "(\<Sum>x\<leftarrow>r'. \<bar>x\<bar>) + (\<Sum>x\<leftarrow>rest. \<bar>x\<bar>) \<le> (\<Sum>x\<leftarrow>?r. \<bar>x\<bar>) + (\<Sum>x\<leftarrow>?xs. \<bar>x\<bar>)"
        "sum_list r' + sum_list rest = sum_list ?r + sum_list ?xs"
        by blast
      have nn: "0 \<le> (\<Sum>x\<leftarrow>rest. \<bar>x\<bar>)" by (rule abs_sum_nonneg)
      have c: "combine8 r' = sum_list r'"
        using rr(2,3,5) bd nn by (intro combine8_exact) auto
      have "foldl fadd (sum_list r') rest = sum_list r' + sum_list rest"
      proof (rule foldl_fadd_exact)
        show "sum_list r' \<in> \<int>" using rr(3) by (rule sum_list_Ints)
        show "\<forall>x\<in>set rest. x \<in> \<int>" by (rule rr(4))
        show "\<bar>sum_list r'\<bar> + (\<Sum>x\<leftarrow>rest. \<bar>x\<bar>) \<le> 2 ^ 53"
          using abs_sum_list [of r'] rr(5) bd by linarith
      qed
      then have "foldl fadd (combine8 r') rest = sum_list a"
        using c rr(6) sum_take_drop [of 8 a] by simp
      then show ?thesis using False True rr(1) by (subst pairwise_sum.simps) simp
    next
      case big: False
      let ?k = "length a div 2 - (length a div 2) mod 8"
      let ?l = "take ?k a" and ?h = "drop ?k a"
      have il: "\<forall>x\<in>set ?l. x \<in> \<int>" using "1.prems"(1) by (meson in_set_takeD)
      have ih: "\<forall>x\<in>set ?h. x \<in> \<int>" using "1.prems"(1) by (meson in_set_dropD)
      have split: "(\<Sum>x\<leftarrow>?l. \<bar>x\<bar>) + (\<Sum>x\<leftarrow>?h. \<bar>x\<bar>) = (\<Sum>x\<leftarrow>a. \<bar>x\<bar>)"
        by (rule abs_sum_take_drop)
      have nl: "0 \<le> (\<Sum>x\<leftarrow>?l. \<bar>x\<bar>)" and nh: "0 \<le> (\<Sum>x\<leftarrow>?h. \<bar>x\<bar>)"
        by (rule abs_sum_nonneg)+
      have pl: "pairwise_sum ?l = sum_list ?l"
        using "1.IH"(1) [OF False big il] split nh "1.prems"(2) by linarith
      have ph: "pairwise_sum ?h = sum_list ?h"
        using "1.IH"(2) [OF False big ih] split nl "1.prems"(2) by linarith
      have "fadd (sum_list ?l) (sum_list ?h) = sum_list ?l + sum_list ?h"
      proof (rule fadd_exact)
        show "sum_list ?l \<in> \<int>" using il by (rule sum_list_Ints)
        show "sum_list ?h \<in> \<int>" using ih by (rule sum_list_Ints)
        show "\<bar>sum_list ?l\<bar> + \<bar>sum_list ?h\<bar> \<le> 2 ^ 53"
          using abs_sum_list [of ?l] abs_sum_list [of ?h] split "1.prems"(2) by linarith
      qed
      then have "fadd (pairwise_sum ?l) (pairwise_sum ?h) = sum_list a"
        using pl ph sum_take_drop [of ?k a] by simp
      then show ?thesis using False big by (subst pairwise_sum.simps) simp
    qed
  qed
qed

lemma concat_chunks: "0 < k \<Longrightarrow> concat (chunks k xs) = xs"
proof (induction k xs rule: chunks.induct)
  case (1 k xs)
  show ?case
  proof (cases "xs = []")
    case True
    then show ?thesis by (subst chunks.simps) simp
  next
    case False
    then have "concat (chunks k (drop k xs)) = drop k xs" using "1.IH" "1.prems" by simp
    then show ?thesis using False "1.prems" by (subst chunks.simps) simp
  qed
qed

lemma add_reduce_fold_exact:
  assumes "r \<in> \<int>" and "\<forall>x\<in>set (concat cs). x \<in> \<int>"
    and "\<bar>r\<bar> + (\<Sum>x\<leftarrow>concat cs. \<bar>x\<bar>) \<le> 2 ^ 53"
  shows "foldl (\<lambda>io c. fadd io (pairwise_sum c)) r cs = r + sum_list (concat cs)"
  using assms
proof (induction cs arbitrary: r)
  case Nil
  then show ?case by simp
next
  case (Cons c cs)
  have nc: "0 \<le> (\<Sum>x\<leftarrow>c. \<bar>x\<bar>)" and ncs: "0 \<le> (\<Sum>x\<leftarrow>concat cs. \<bar>x\<bar>)"
    by (rule abs_sum_nonneg)+
  have ic: "\<forall>x\<in>set c. x \<in> \<int>" using Cons.prems(2) by auto
  have bc: "\<bar>r\<bar> + (\<Sum>x\<leftarrow>c. \<bar>x\<bar>) + (\<Sum>x\<leftarrow>concat cs. \<bar>x\<bar>) \<le> 2 ^ 53"
    using Cons.prems(3) by simp
  have nr: "0 \<le> \<bar>r\<bar>" by simp
  have pc: "pairwise_sum c = sum_list c"
  proof (rule pairwise_sum_exact)
    show "\<forall>x\<in>set c. x \<in> \<int>" by (rule ic)
    show "(\<Sum>x\<leftarrow>c. \<bar>x\<bar>) \<le> 2 ^ 53" using bc ncs nr by linarith
  qed
  have fa: "fadd r (sum_list c) = r + sum_list c"
  proof (rule fadd_exact)
    show "r \<in> \<int>" by (rule Cons.prems(1))
    show "sum_list c \<in> \<int>" using ic by (rule sum_list_Ints)
    show "\<bar>r\<bar> + \<bar>sum_list c\<bar> \<le> 2 ^ 53" using abs_sum_list [of c] bc ncs by linarith
  qed
  have "foldl (\<lambda>io c. fadd io (pairwise_sum c)) (r + sum_list c) cs
          = (r + sum_list c) + sum_list (concat cs)"
  proof (rule Cons.IH)
    show "r + sum_list c \<in> \<int>" using Cons.prems(1) sum_list_Ints [OF ic] by auto
    show "\<forall>x\<in>set (concat cs). x \<in> \<int>" using Cons.prems(2) by auto
    show "\<bar>r + sum_list c\<bar> + (\<Sum>x\<leftarrow>concat cs. \<bar>x\<bar>) \<le> 2 ^ 53"
      using abs_sum_list [of c] bc by linarith
  qed
  then show ?case by (simp add: pc fa)
qed

lemma member_le_sum_abs:
  fixes xs :: "real list"
  shows "x \<in> set xs \<Longrightarrow> \<bar>x\<bar> \<le> (\<Sum>x\<leftarrow>xs. \<bar>x\<bar>)"
proof (induction xs)
  case Nil
  then show ?case by simp
next
  case (Cons a xs)
  have nn: "0 \<le> (\<Sum>x\<leftarrow>xs. \<bar>x\<bar>)" by (rule abs_sum_nonneg)
  show ?case
  proof (cases "x = a")
    case True
    then show ?thesis using nn by simp
  next
    case False
    then have "\<bar>x\<bar> \<le> (\<Sum>x\<leftarrow>xs. \<bar>x\<bar>)" using Cons by simp
    then show ?thesis by simp
  qed
qed

lemma of_int_sum_list: "real_of_int (sum_list ks) = sum_list (map real_of_int ks)"
  by (induction ks) simp_all

lemma of_int_sum_abs: "(\<Sum>x\<leftarrow>map real_of_int ks. \<bar>x\<bar>) = real_of_int (\<Sum>k\<leftarrow>ks. \<bar>k\<bar>)"
  by (induction ks) simp_all

lemma of_int_le_pow53: "k \<le> (2 ^ 53 :: int) \<Longrightarrow> real_of_int k \<le> 2 ^ 53"
  by (metis of_int_le_iff of_int_numeral of_int_power)

lemma np_mean_exact:
  assumes "xs \<noteq> []" and "\<forall>x\<in>set xs. x \<in> \<int>" and "(\<Sum>x\<leftarrow>xs. \<bar>x\<bar>) \<le> 2 ^ 53"
  shows "np_mean xs = Fin (fl64 (sum_list xs / real (length xs)))"
proof -
  have "foldl (\<lambda>io c. fadd io (pairwise_sum c)) 0 [xs] = 0 + sum_list (concat [xs])"
    using assms(2,3) by (intro add_reduce_fold_exact) simp_all
  then have "add_reduce [xs] = sum_list xs" by (simp add: add_reduce_def)
  then show ?thesis using assms(1) by (simp add: np_mean_def fdiv_def)
qed

lemma ndarray_mean_exact_sum:
  assumes "ks \<noteq> []"
    and "\<forall>x\<in>set (map (\<lambda>k. fl64 (real_of_int k)) ks). x \<in> \<int>"
    and "(\<Sum>x\<leftarrow>map (\<lambda>k. fl64 (real_of_int k)) ks. \<bar>x\<bar>) \<le> 2 ^ 53"
  shows "ndarray_mean ks
           = Fin (fl64 (sum_list (map (\<lambda>k. fl64 (real_of_int k)) ks) / real (length ks)))"
proof -
  let ?xs = "map (\<lambda>k. fl64 (real_of_int k)) ks"
  have c: "concat (chunks 8192 ?xs) = ?xs" by (rule concat_chunks) simp
  have i: "\<forall>x\<in>set (concat (chunks 8192 ?xs)). x \<in> \<int>"
    using assms(2) by (simp only: c)
  have b: "\<bar>0 :: real\<bar> + (\<Sum>x\<leftarrow>concat (chunks 8192 ?xs). \<bar>x\<bar>) \<le> 2 ^ 53"
    using assms(3) by (simp add: c)
  have "foldl (\<lambda>io c. fadd io (pairwise_sum c)) 0 (chunks 8192 ?xs)
          = 0 + sum_list (concat (chunks 8192 ?xs))"
    by (rule add_reduce_fold_exact [OF Ints_0 i b])
  then have "add_reduce (chunks 8192 ?xs) = sum_list ?xs" by (simp add: add_reduce_def c)
  then show ?thesis using assms(1) by (simp add: ndarray_mean_def fdiv_def)
qed

lemma cast_exact:
  assumes "(\<Sum>k\<leftarrow>ks. \<bar>k\<bar>) \<le> (2 ^ 53 :: int)"
  shows "map (\<lambda>k. fl64 (real_of_int k)) ks = map real_of_int ks"
proof (rule map_cong [OF refl])
  fix k assume k: "k \<in> set ks"
  have "\<bar>real_of_int k\<bar> \<le> (\<Sum>x\<leftarrow>map real_of_int ks. \<bar>x\<bar>)"
    using k by (intro member_le_sum_abs) simp
  also have "\<dots> = real_of_int (\<Sum>k\<leftarrow>ks. \<bar>k\<bar>)" by (rule of_int_sum_abs)
  also have "\<dots> \<le> 2 ^ 53" using assms by (rule of_int_le_pow53)
  finally show "fl64 (real_of_int k) = real_of_int k" by (rule fl64_int)
qed

lemma ndarray_mean_exact:
  assumes "ks \<noteq> []" and "(\<Sum>k\<leftarrow>ks. \<bar>k\<bar>) \<le> (2 ^ 53 :: int)"
  shows "ndarray_mean ks = Fin (fl64 (real_of_int (sum_list ks) / real (length ks)))"
proof -
  have c: "map (\<lambda>k. fl64 (real_of_int k)) ks = map real_of_int ks"
    using assms(2) by (rule cast_exact)
  have b: "(\<Sum>x\<leftarrow>map real_of_int ks. \<bar>x\<bar>) \<le> 2 ^ 53"
    unfolding of_int_sum_abs using assms(2) by (rule of_int_le_pow53)
  have i: "\<forall>x\<in>set (map real_of_int ks). x \<in> \<int>" by simp
  have "ndarray_mean ks
          = Fin (fl64 (sum_list (map real_of_int ks) / real (length ks)))"
    using ndarray_mean_exact_sum [OF assms(1), unfolded c, OF i b] .
  then show ?thesis unfolding of_int_sum_list .
qed

section \<open>Properties of one sample mean\<close>

lemma sum_list_bounds:
  fixes xs :: "real list"
  assumes "\<forall>x \<in> set xs. lo \<le> x \<and> x \<le> hi"
  shows "lo * real (length xs) \<le> sum_list xs \<and> sum_list xs \<le> hi * real (length xs)"
  using assms by (induction xs) (auto simp: algebra_simps)

lemma mean_bounds:
  fixes xs :: "real list"
  assumes ne: "xs \<noteq> []" and bd: "\<forall>x \<in> set xs. lo \<le> x \<and> x \<le> hi"
  shows "lo \<le> sum_list xs / real (length xs) \<and> sum_list xs / real (length xs) \<le> hi"
proof -
  have pos: "0 < real (length xs)" using ne by simp
  from sum_list_bounds [OF bd] pos show ?thesis
    by (simp add: pos_le_divide_eq pos_divide_le_eq)
qed

lemma choice_ok:
  assumes "population \<noteq> []" and "1 \<le> sample_size"
  shows "np_random_choice population sample_size g =
           Inr (map (\<lambda>i. population ! (g i mod length population)) [0..<nat sample_size],
                advance (nat sample_size) g)"
  using assms by (simp add: np_random_choice_def randint_def)

lemma draw_ok:
  assumes "population \<noteq> []" and "1 \<le> sample_size"
  shows "draw_sample_mean population sample_size g =
           Inr (ndarray_mean (map (\<lambda>i. population ! (g i mod length population))
                                [0..<nat sample_size]),
                advance (nat sample_size) g)"
  using assms by (simp add: draw_sample_mean_def choice_ok)

lemma ndarray_mean_Fin: "ks \<noteq> [] \<Longrightarrow> \<exists>m. ndarray_mean ks = Fin m"
  by (simp add: ndarray_mean_def)

lemma abs_div_le:
  fixes x c :: real
  assumes "1 \<le> c"
  shows "\<bar>x / c\<bar> \<le> \<bar>x\<bar>"
proof -
  have "\<bar>x\<bar> * 1 \<le> \<bar>x\<bar> * c" using assms by (intro mult_left_mono) simp_all
  moreover have "0 < c" using assms by simp
  ultimately show ?thesis by (simp add: pos_divide_le_eq)
qed

lemma sum_abs_le:
  fixes ks :: "int list"
  assumes "\<forall>k\<in>set ks. \<bar>k\<bar> * int (length ks) \<le> T" and "0 \<le> T"
  shows "(\<Sum>k\<leftarrow>ks. \<bar>k\<bar>) \<le> T"
proof (cases "ks = []")
  case True
  then show ?thesis using assms(2) by simp
next
  case False
  define M where "M = Max (abs ` set ks)"
  have fin: "finite (abs ` set ks)" and ne: "abs ` set ks \<noteq> {}" using False by simp_all
  have le: "\<forall>k\<in>set ks. \<bar>k\<bar> \<le> M" unfolding M_def using fin by simp
  have "M \<in> abs ` set ks" unfolding M_def using fin ne by (rule Max_in)
  then obtain k0 where k0: "k0 \<in> set ks" "M = \<bar>k0\<bar>" by auto
  have "(\<Sum>k\<leftarrow>ks. \<bar>k\<bar>) \<le> (\<Sum>k\<leftarrow>ks. M)" using le by (intro sum_list_mono) simp
  also have "\<dots> = M * int (length ks)" by (simp add: sum_list_triv mult.commute)
  also have "\<dots> \<le> T" using assms(1) k0 by simp
  finally show ?thesis .
qed

lemma ndarray_mean_between:
  assumes ne: "ks \<noteq> []" and sub: "set ks \<subseteq> set population"
    and small: "\<forall>x\<in>set population. \<bar>x\<bar> * int (length ks) \<le> 2 ^ 53"
  shows "\<exists>m. ndarray_mean ks = Fin m
           \<and> real_of_int (Min (set population)) \<le> m
           \<and> m \<le> real_of_int (Max (set population))"
proof -
  let ?xs = "map real_of_int ks"
  have "\<forall>k\<in>set ks. \<bar>k\<bar> * int (length ks) \<le> 2 ^ 53" using sub small by blast
  then have sm: "(\<Sum>k\<leftarrow>ks. \<bar>k\<bar>) \<le> (2 ^ 53 :: int)" by (rule sum_abs_le) simp
  have mean: "ndarray_mean ks = Fin (fl64 (real_of_int (sum_list ks) / real (length ks)))"
    using ne sm by (rule ndarray_mean_exact)
  have s: "real_of_int (sum_list ks) = sum_list ?xs" by (rule of_int_sum_list)
  have bd: "\<forall>x \<in> set ?xs. real_of_int (Min (set population)) \<le> x
              \<and> x \<le> real_of_int (Max (set population))"
  proof
    fix x assume "x \<in> set ?xs"
    then obtain k where k: "k \<in> set ks" "x = real_of_int k" by auto
    then have "k \<in> set population" using sub by blast
    then have "Min (set population) \<le> k" and "k \<le> Max (set population)" by simp_all
    then show "real_of_int (Min (set population)) \<le> x \<and> x \<le> real_of_int (Max (set population))"
      using k(2) by simp
  qed
  have xne: "?xs \<noteq> []" using ne by simp
  have between: "real_of_int (Min (set population)) \<le> sum_list ?xs / real (length ?xs)"
    "sum_list ?xs / real (length ?xs) \<le> real_of_int (Max (set population))"
    using mean_bounds [OF xne bd] by simp_all
  have "\<bar>sum_list ?xs\<bar> \<le> (\<Sum>x\<leftarrow>?xs. \<bar>x\<bar>)" by (rule abs_sum_list)
  also have "\<dots> = real_of_int (\<Sum>k\<leftarrow>ks. \<bar>k\<bar>)" by (rule of_int_sum_abs)
  also have "\<dots> \<le> 2 ^ 53" using sm by (rule of_int_le_pow53)
  finally have abs_s: "\<bar>sum_list ?xs\<bar> \<le> 2 ^ 53" .
  have "1 \<le> real (length ?xs)" using xne by (simp add: Suc_le_eq)
  then have "\<bar>sum_list ?xs / real (length ?xs)\<bar> \<le> \<bar>sum_list ?xs\<bar>"
    by (rule abs_div_le)
  then have mag: "\<bar>sum_list ?xs / real (length ?xs)\<bar> \<le> 2 ^ 53" using abs_s by linarith
  from fl64_between [OF mag between]
  have "real_of_int (Min (set population)) \<le> fl64 (sum_list ?xs / real (length ?xs))"
    and "fl64 (sum_list ?xs / real (length ?xs)) \<le> real_of_int (Max (set population))"
    by simp_all
  then show ?thesis unfolding mean s by simp
qed

text \<open>
  C1, as claimed, fails on a population whose values do not fit the 53 bits of a
  \<^verbatim>\<open>float64\<close>: the one value \<open>2^53 + 1\<close> is rounded to \<open>2^53\<close> when the sample is
  converted, and the mean of the sample of size 1 is \<open>2^53\<close>, below the minimum of the
  population.
\<close>

theorem large_value_counterexample:
  "draw_sample_mean [9007199254740993] 1 (\<lambda>i. 0)
     = Inr (Fin 9007199254740992, advance 1 (\<lambda>i. 0))
   \<and> (9007199254740992 :: real) < real_of_int (Min (set [9007199254740993]))"
proof -
  have cast: "map (\<lambda>k. fl64 (real_of_int k)) [9007199254740993] = [9007199254740992]"
    using fl64_tie by simp
  have i: "\<forall>x\<in>set (map (\<lambda>k. fl64 (real_of_int k)) [9007199254740993]). x \<in> \<int>"
    unfolding cast by simp
  have b: "(\<Sum>x\<leftarrow>map (\<lambda>k. fl64 (real_of_int k)) [9007199254740993]. \<bar>x\<bar>) \<le> 2 ^ 53"
    unfolding cast by simp
  have "ndarray_mean [9007199254740993]
          = Fin (fl64 (sum_list (map (\<lambda>k. fl64 (real_of_int k)) [9007199254740993])
                       / real (length [9007199254740993 :: int])))"
    by (rule ndarray_mean_exact_sum [OF _ i b]) simp
  also have "\<dots> = Fin (fl64 (2 ^ 53))" unfolding cast by simp
  also have "\<dots> = Fin 9007199254740992" by (simp only: fl64_pow53) simp
  finally have "ndarray_mean [9007199254740993] = Fin 9007199254740992" .
  then show ?thesis by (simp add: draw_ok)
qed

text \<open>
  C1, amended. For every non-empty population of integers and every sample size
  \<open>n \<ge> 1\<close> such that \<open>n\<close> times the magnitude of each value is at most \<open>2^53\<close>, whatever
  the random source produces, \<open>draw_sample_mean\<close> returns a finite value that lies
  between the minimum and the maximum of the population.
\<close>

theorem draw_sample_mean_in_range:
  assumes "population \<noteq> []" and "1 \<le> sample_size"
    and "\<forall>x\<in>set population. \<bar>x\<bar> * sample_size \<le> 2 ^ 53"
  shows "\<exists>m g'. draw_sample_mean population sample_size g = Inr (Fin m, g')
           \<and> real_of_int (Min (set population)) \<le> m
           \<and> m \<le> real_of_int (Max (set population))"
proof -
  let ?ks = "map (\<lambda>i. population ! (g i mod length population)) [0..<nat sample_size]"
  have sub: "set ?ks \<subseteq> set population" using assms(1) by auto
  have ne: "?ks \<noteq> []" using assms(2) by simp
  have len: "int (length ?ks) = sample_size" using assms(2) by simp
  have small: "\<forall>x\<in>set population. \<bar>x\<bar> * int (length ?ks) \<le> 2 ^ 53"
    unfolding len by (rule assms(3))
  from ndarray_mean_between [OF ne sub small] show ?thesis
    unfolding draw_ok [OF assms(1,2)] by blast
qed

theorem draw_sample_mean_in_range_witness:
  "[3, 1, 4 :: int] \<noteq> [] \<and> (1::int) \<le> 2
   \<and> \<bar>3::int\<bar> * 2 \<le> 2 ^ 53 \<and> \<bar>1::int\<bar> * 2 \<le> 2 ^ 53 \<and> \<bar>4::int\<bar> * 2 \<le> 2 ^ 53
   \<and> (\<exists>m g'. draw_sample_mean [3, 1, 4] 2 (\<lambda>i. 7 * i + 2) = Inr (Fin m, g')
         \<and> real_of_int (Min (set [3, 1, 4])) \<le> m
         \<and> m \<le> real_of_int (Max (set [3, 1, 4])))"
  using draw_sample_mean_in_range [of "[3, 1, 4]" 2 "\<lambda>i. 7 * i + 2"] by simp

section \<open>Properties of the sampling loop\<close>

lemma advance_0: "advance 0 g = g"
  by (simp add: advance_def)

lemma advance_advance: "advance a (advance b g) = advance (a + b) g"
  by (simp add: advance_def add.assoc)

lemma draw_step:
  assumes "population \<noteq> []" and "1 \<le> sample_size"
  shows "\<exists>m. draw_sample_mean population sample_size g = Inr (m, advance (nat sample_size) g)"
  using draw_ok [OF assms] by simp

lemma loop_general:
  assumes "population \<noteq> []" and "1 \<le> sample_size"
  shows "\<exists>ms. sample_means_loop population sample_size c g acc
                 = Inr (acc @ ms, advance (c * nat sample_size) g)
              \<and> length ms = c
              \<and> (\<forall>k<c. draw_sample_mean population sample_size (advance (k * nat sample_size) g)
                         = Inr (ms ! k, advance (Suc k * nat sample_size) g))"
proof (induction c arbitrary: g acc)
  case 0
  show ?case by (simp add: advance_0)
next
  case (Suc c)
  obtain m where m: "draw_sample_mean population sample_size g = Inr (m, advance (nat sample_size) g)"
    using draw_step [OF assms] by blast
  obtain ms where ms:
    "sample_means_loop population sample_size c (advance (nat sample_size) g) (acc @ [m])
       = Inr ((acc @ [m]) @ ms, advance (c * nat sample_size) (advance (nat sample_size) g))"
    "length ms = c"
    "\<forall>k<c. draw_sample_mean population sample_size
               (advance (k * nat sample_size) (advance (nat sample_size) g))
             = Inr (ms ! k, advance (Suc k * nat sample_size) (advance (nat sample_size) g))"
    using Suc.IH [of "advance (nat sample_size) g" "acc @ [m]"] by blast
  have "sample_means_loop population sample_size (Suc c) g acc
          = Inr (acc @ (m # ms), advance (Suc c * nat sample_size) g)"
    using m ms(1) by (simp add: advance_advance add.commute)
  moreover have "length (m # ms) = Suc c" using ms(2) by simp
  moreover have "\<forall>k<Suc c. draw_sample_mean population sample_size (advance (k * nat sample_size) g)
                         = Inr ((m # ms) ! k, advance (Suc k * nat sample_size) g)"
  proof (intro allI impI)
    fix k assume k: "k < Suc c"
    show "draw_sample_mean population sample_size (advance (k * nat sample_size) g)
                         = Inr ((m # ms) ! k, advance (Suc k * nat sample_size) g)"
    proof (cases k)
      case 0
      then show ?thesis using m by (simp add: advance_0)
    next
      case (Suc j)
      then have "j < c" using k by simp
      with ms(3) Suc show ?thesis by (simp add: advance_advance add.commute)
    qed
  qed
  ultimately show ?case by blast
qed

lemma finite_part_append: "finite_part (xs @ ys) = finite_part xs @ finite_part ys"
proof (induction xs)
  case Nil
  then show ?case by simp
next
  case (Cons x xs)
  then show ?case by (cases x) simp_all
qed

lemma animated_update_state:
  "animated_update population sample_size (sample_means, g) =
     (case draw_sample_mean population sample_size g of
        Inl e \<Rightarrow> Inl e
      | Inr (m, g') \<Rightarrow>
          if 5 \<le> length sample_means \<and> finite_part (sample_means @ [m]) = []
          then Inl ValueError
          else Inr ((sample_means @ [m], g'),
           \<lparr> sample_shown = fst (projr (np_random_choice population sample_size g)),
             hist_bins = (if length sample_means \<ge> 5
                                    then Some (min 30 (Suc (length sample_means) div 5)) else None),
             fit = (if length sample_means \<ge> 30
                    then Some (np_mean_f (sample_means @ [m]), np_std_f 0 (sample_means @ [m]))
                    else None) \<rparr>))"
  by (auto simp: animated_update_def draw_sample_mean_def Let_def split: sum.splits prod.splits)

lemma draw_Fin:
  assumes "population \<noteq> []" and "1 \<le> sample_size"
  shows "\<exists>m. draw_sample_mean population sample_size g
               = Inr (Fin m, advance (nat sample_size) g)"
proof -
  have "map (\<lambda>i. population ! (g i mod length population)) [0..<nat sample_size] \<noteq> []"
    using assms(2) by simp
  from ndarray_mean_Fin [OF this] show ?thesis unfolding draw_ok [OF assms] by blast
qed

lemma animated_frames_loop:
  assumes "population \<noteq> []" and "1 \<le> sample_size"
  shows "animated_frames population sample_size c (acc, g)
           = sample_means_loop population sample_size c g acc"
proof (induction c arbitrary: acc g)
  case 0
  show ?case by simp
next
  case (Suc c)
  obtain m where m: "draw_sample_mean population sample_size g
                       = Inr (Fin m, advance (nat sample_size) g)"
    using draw_Fin [OF assms] by blast
  have "animated_update population sample_size (acc, g)
          = Inr ((acc @ [Fin m], advance (nat sample_size) g),
                 \<lparr> sample_shown = fst (projr (np_random_choice population sample_size g)),
                   hist_bins = (if length acc \<ge> 5
                                then Some (min 30 (Suc (length acc) div 5)) else None),
                   fit = (if length acc \<ge> 30
                          then Some (np_mean_f (acc @ [Fin m]), np_std_f 0 (acc @ [Fin m]))
                          else None) \<rparr>)"
    by (simp add: animated_update_state m finite_part_append)
  then show ?case using m Suc.IH by simp
qed

text \<open>
  C2. For a non-empty population, every sample size \<open>n \<ge> 1\<close> and every count \<open>c\<close>,
  \<open>accumulate_sample_means\<close> returns a sequence of exactly \<open>c\<close> elements in call order:
  its \<open>k\<close>-th element is what the \<open>k\<close>-th call of \<open>draw_sample_mean\<close> returns, the call
  made on the generator as the \<open>k\<close> calls before it have left it. The frames of the
  animated histogram, started on the empty list, build the same sequence.
\<close>

theorem accumulate_sample_means_in_call_order:
  assumes "population \<noteq> []" and "1 \<le> sample_size"
  shows "\<exists>ms. accumulate_sample_means population sample_size c g
                 = Inr (ms, advance (c * nat sample_size) g)
              \<and> length ms = c
              \<and> (\<forall>k<c. draw_sample_mean population sample_size (advance (k * nat sample_size) g)
                         = Inr (ms ! k, advance (Suc k * nat sample_size) g))
              \<and> animated_frames population sample_size c ([], g)
                 = Inr (ms, advance (c * nat sample_size) g)"
  using loop_general [OF assms, of c g "[]"]
  by (auto simp: accumulate_sample_means_def animated_frames_loop [OF assms])

theorem accumulate_sample_means_in_call_order_witness:
  "[3, 1, 4 :: int] \<noteq> [] \<and> (1::int) \<le> 2
   \<and> (\<exists>ms. accumulate_sample_means [3, 1, 4] 2 3 (\<lambda>i. 7 * i + 2)
                 = Inr (ms, advance (3 * nat 2) (\<lambda>i. 7 * i + 2))
              \<and> length ms = 3
              \<and> draw_sample_mean [3, 1, 4] 2 (advance (0 * nat 2) (\<lambda>i. 7 * i + 2))
                         = Inr (ms ! 0, advance (Suc 0 * nat 2) (\<lambda>i. 7 * i + 2))
              \<and> draw_sample_mean [3, 1, 4] 2 (advance (2 * nat 2) (\<lambda>i. 7 * i + 2))
                         = Inr (ms ! 2, advance (Suc 2 * nat 2) (\<lambda>i. 7 * i + 2)))"
proof -
  obtain ms where ms: "accumulate_sample_means [3, 1, 4] 2 3 (\<lambda>i. 7 * i + 2)
                 = Inr (ms, advance (3 * nat 2) (\<lambda>i. 7 * i + 2))"
     "length ms = 3"
     "\<forall>k<3. draw_sample_mean [3, 1, 4] 2 (advance (k * nat 2) (\<lambda>i. 7 * i + 2))
                         = Inr (ms ! k, advance (Suc k * nat 2) (\<lambda>i. 7 * i + 2))"
    using accumulate_sample_means_in_call_order [of "[3, 1, 4]" 2 3 "\<lambda>i. 7 * i + 2"] by auto
  have first: "draw_sample_mean [3, 1, 4] 2 (advance (0 * nat 2) (\<lambda>i. 7 * i + 2))
                 = Inr (ms ! 0, advance (Suc 0 * nat 2) (\<lambda>i. 7 * i + 2))"
    using ms(3) [rule_format, of 0] by simp
  have third: "draw_sample_mean [3, 1, 4] 2 (advance (2 * nat 2) (\<lambda>i. 7 * i + 2))
                 = Inr (ms ! 2, advance (Suc 2 * nat 2) (\<lambda>i. 7 * i + 2))"
    using ms(3) [rule_format, of 2] by simp
  have "[3, 1, 4 :: int] \<noteq> []" and "(1::int) \<le> 2" by simp_all
  with ms(1,2) first third show ?thesis by blast
qed

section \<open>Error conditions of the sampling operation\<close>

text \<open>
  C4. On an empty population \<open>draw_sample_mean\<close> fails with \<^verbatim>\<open>ValueError\<close>, the exception of
  kind \<open>InvalidInput\<close>, for every sample size that asks for a sample (the operation takes
  a positive sample size); on a non-empty population and a positive sample size it
  returns a finite value, whatever the random source.
\<close>

theorem draw_sample_mean_errors:
  "(sample_size \<noteq> 0 \<longrightarrow>
      draw_sample_mean [] sample_size g = Inl ValueError \<and> kind_of ValueError = InvalidInput)
   \<and> (population \<noteq> [] \<and> 1 \<le> sample_size \<longrightarrow>
        (\<exists>m g'. draw_sample_mean population sample_size g = Inr (Fin m, g')))"
proof -
  have "sample_size \<noteq> 0 \<longrightarrow> draw_sample_mean [] sample_size g = Inl ValueError"
    by (simp add: draw_sample_mean_def np_random_choice_def)
  moreover have "population \<noteq> [] \<and> 1 \<le> sample_size \<longrightarrow>
        (\<exists>m g'. draw_sample_mean population sample_size g = Inr (Fin m, g'))"
    using draw_Fin [of population sample_size g] by blast
  ultimately show ?thesis by simp
qed

theorem draw_sample_mean_errors_witness:
  "(2::int) \<noteq> 0
   \<and> draw_sample_mean [] 2 (\<lambda>i. 7 * i + 2) = Inl ValueError \<and> kind_of ValueError = InvalidInput
   \<and> [3, 1, 4 :: int] \<noteq> [] \<and> (1::int) \<le> 2
   \<and> (\<exists>m g'. draw_sample_mean [3, 1, 4] 2 (\<lambda>i. 7 * i + 2) = Inr (Fin m, g'))"
  using draw_sample_mean_errors [of 2 "\<lambda>i. 7 * i + 2" "[3, 1, 4]"] by simp

text \<open>
  C5, as claimed, fails at sample size 0: numpy returns an empty sample without an
  exception, and its mean is \<^verbatim>\<open>nan\<close>.
\<close>

theorem zero_sample_size_counterexample:
  "draw_sample_mean [3, 1, 4] 0 (\<lambda>i. 7 * i + 2) = Inr (NaN, (\<lambda>i. 7 * i + 2))
   \<and> \<not> isl (draw_sample_mean [3, 1, 4] 0 (\<lambda>i. 7 * i + 2))"
  by (simp add: draw_sample_mean_def np_random_choice_def ndarray_mean_def)

text \<open>
  C5, amended. A negative sample size makes the sampling operation fail with
  \<^verbatim>\<open>ValueError\<close>, of kind \<open>InvalidInput\<close>, for every population; the sample size 0 does not
  fail: for every population, empty or not, the result is \<^verbatim>\<open>nan\<close> and the generator is
  left as it was.
\<close>

theorem nonpositive_sample_size:
  "(sample_size < 0 \<longrightarrow>
      draw_sample_mean population sample_size g = Inl ValueError
      \<and> kind_of ValueError = InvalidInput)
   \<and> draw_sample_mean population 0 g = Inr (NaN, g)"
  by (simp add: draw_sample_mean_def np_random_choice_def ndarray_mean_def)

theorem nonpositive_sample_size_witness:
  "(-1::int) < 0
   \<and> draw_sample_mean [3, 1, 4] (-1) (\<lambda>i. 7 * i + 2) = Inl ValueError
   \<and> kind_of ValueError = InvalidInput
   \<and> draw_sample_mean [3, 1, 4] 0 (\<lambda>i. 7 * i + 2) = Inr (NaN, (\<lambda>i. 7 * i + 2))"
  using nonpositive_sample_size [of "-1" "[3, 1, 4]" "\<lambda>i. 7 * i + 2"] by simp

section \<open>Properties of the summary\<close>

lemma np_mean_singleton_5: "np_mean [5] = Fin 5"
proof -
  have "np_mean [5] = Fin (fl64 (sum_list [5] / real (length [5 :: real])))"
    by (rule np_mean_exact) simp_all
  moreover have "fl64 5 = 5" using fl64_int [of 5] by simp
  ultimately show ?thesis by simp
qed

lemma np_mean_1_3: "np_mean [1, 3] = Fin 2"
proof -
  have "np_mean [1, 3] = Fin (fl64 (sum_list [1, 3] / real (length [1, 3 :: real])))"
    by (rule np_mean_exact) simp_all
  moreover have "fl64 2 = 2" using fl64_int [of 2] by simp
  ultimately show ?thesis by simp
qed

text \<open>
  C3, as claimed, fails on the empty collection: the two statements return \<^verbatim>\<open>nan\<close> for
  the mean and for the standard deviation, and raise nothing.
\<close>

theorem summarize_empty_counterexample:
  "summarize [] = Inr (NaN, NaN) \<and> \<not> isl (summarize [])"
  by (simp add: summarize_def np_mean_f_def np_std_f_def np_std_def np_var_def np_mean_def)

text \<open>
  C3, amended. \<open>summarize\<close> fails on no input; on the empty collection it returns
  \<^verbatim>\<open>nan\<close> for both parameters, and on the singleton \<open>[5.0]\<close> it returns \<open>mu = 5.0\<close> and
  \<open>sigma = 0.0\<close>.
\<close>

theorem summarize_never_fails:
  "summarize sample_means \<noteq> Inl e
   \<and> summarize [] = Inr (NaN, NaN)
   \<and> summarize [Fin 5] = Inr (Fin 5, Fin 0)"
  by (simp add: summarize_def np_mean_f_def np_std_f_def np_std_def np_var_def
        np_mean_singleton_5)
     (simp add: np_mean_def)

section \<open>The fitted normal parameters\<close>

lemma slider_sizes: "sample_sizes = map (\<lambda>k. 5 + int k * 5) [0..<20]"
  by (simp add: sample_sizes_def py_range_def)

lemma slider_ok:
  assumes "population \<noteq> []" and "frame < 20"
  shows "\<exists>sm g'. accumulate_sample_means population (5 * (int frame + 1)) 1000 g = Inr (sm, g')
           \<and> length sm = 1000
           \<and> slider_update population frame g
               = Inr ((5 * (int frame + 1), np_mean_f sm, np_std_f 0 sm), g')"
proof -
  have sz: "py_index sample_sizes frame = Inr (5 * (int frame + 1))"
    using assms(2) by (simp add: py_index_def slider_sizes algebra_simps)
  have "1 \<le> 5 * (int frame + 1)" by simp
  from loop_general [OF assms(1) this, of 1000 g "[]"]
  obtain sm where "accumulate_sample_means population (5 * (int frame + 1)) 1000 g
      = Inr (sm, advance (1000 * nat (5 * (int frame + 1))) g)" "length sm = 1000"
    by (auto simp: accumulate_sample_means_def)
  then show ?thesis
    by (simp add: slider_update_def sz)
qed

lemma animated_ok:
  assumes "population \<noteq> []" and "1 \<le> sample_size"
  shows "\<exists>m g' v. animated_update population sample_size (sample_means, g)
                     = Inr ((sample_means @ [m], g'), v)
           \<and> (hist_bins v = None \<longleftrightarrow> length (sample_means @ [m]) \<le> 5)
           \<and> fit v = (if 30 < length (sample_means @ [m])
                      then Some (np_mean_f (sample_means @ [m]), np_std_f 0 (sample_means @ [m]))
                      else None)"
  using draw_Fin [OF assms, of g]
  by (auto simp: animated_update_state finite_part_append)

text \<open>
  C7, as claimed, fails for \<^verbatim>\<open>CLT.py\<close>: \<^verbatim>\<open>plot_clt_results\<close> computes \<open>mu\<close> and \<open>sigma\<close> from
  whatever collection it is given, here one of two elements, below both thresholds.
\<close>

theorem unconditional_fit_counterexample:
  "summarize [Fin 1, Fin 3] = Inr (Fin 2, Fin 1)"
  by (simp add: summarize_def np_mean_f_def np_std_f_def np_std_def np_var_def np_mean_1_3)

text \<open>
  C7, amended. In the animated histogram the parameters \<open>(mu, sigma)\<close> are computed from
  the collection exactly when, after the frame's append, it has more than 30 elements,
  and no fit is computed before; the histogram of the means is drawn when it has more
  than 5. \<^verbatim>\<open>CLT.py\<close> and the slider script compute the parameters from the collection
  they have, with no threshold.
\<close>

theorem fit_thresholds:
  "(population \<noteq> [] \<and> 1 \<le> sample_size \<longrightarrow>
      (\<exists>m g' v. animated_update population sample_size (sample_means, g)
                     = Inr ((sample_means @ [m], g'), v)
           \<and> (hist_bins v = None \<longleftrightarrow> length (sample_means @ [m]) \<le> 5)
           \<and> fit v = (if 30 < length (sample_means @ [m])
                      then Some (np_mean_f (sample_means @ [m]), np_std_f 0 (sample_means @ [m]))
                      else None)))
   \<and> summarize collection = Inr (np_mean_f collection, np_std_f 0 collection)
   \<and> (population \<noteq> [] \<and> frame < 20 \<longrightarrow>
        (\<exists>sm g'. accumulate_sample_means population (5 * (int frame + 1)) 1000 g = Inr (sm, g')
           \<and> slider_update population frame g
               = Inr ((5 * (int frame + 1), np_mean_f sm, np_std_f 0 sm), g')))"
  using animated_ok [of population sample_size sample_means g] slider_ok [of population frame g]
  by (auto simp: summarize_def)

theorem fit_thresholds_witness:
  "[7::int] \<noteq> [] \<and> (1::int) \<le> 1 
   \<and> (\<exists>m g' v. animated_update [7] 1 ([Fin 7], (\<lambda>i. 0)) = Inr (([Fin 7] @ [m], g'), v)
           \<and> hist_bins v = None \<and> fit v = None)
   \<and> summarize [Fin 1, Fin 3] = Inr (np_mean_f [Fin 1, Fin 3], np_std_f 0 [Fin 1, Fin 3])
   \<and> (0::nat) < 20
   \<and> (\<exists>sm g'. accumulate_sample_means [7] (5 * (int 0 + 1)) 1000 (\<lambda>i. 0) = Inr (sm, g')
           \<and> slider_update [7] 0 (\<lambda>i. 0)
               = Inr ((5 * (int 0 + 1), np_mean_f sm, np_std_f 0 sm), g'))"
  using fit_thresholds [of "[7]" 1 "[Fin 7]" "\<lambda>i. 0" "[Fin 1, Fin 3]" 0]
  by simp










section \<open>The export without an encoder\<close>

lemma export_gif_fields:
  "save_calls (export_gif e r) = save_calls r @ [''clt_animation1.gif'']"
  "files (export_gif e r) = (case gif_save e of Done \<Rightarrow> files r @ [''clt_animation1.gif''] | Raises x msg \<Rightarrow> files r)"
  "unhandled (export_gif e r) = (case gif_save e of Done \<Rightarrow> unhandled r | Raises x msg \<Rightarrow> Some x)"
  "take (Suc (length (stdout r))) (stdout (export_gif e r)) = stdout r @ [''Saving as GIF...'']"
  by (simp_all add: export_gif_def Let_def print_def call_save_def written_def split: outcome.splits)

text \<open>
  C6. When \<^verbatim>\<open>ffmpeg\<close> is not found, the run prints the warning after announcing the MP4
  export and goes on to the GIF export: \<^verbatim>\<open>anim.save\<close> is called for the GIF only, no MP4
  file is written, and the run ends with an exception only if the GIF export itself
  raises one; when the GIF export succeeds, the GIF is the one file written and no
  exception is left unhandled.
\<close>

theorem missing_encoder_skips_mp4:
  assumes "ffmpeg_path e = None"
  shows "take 4 (stdout (main e))
           = [''Generating CLT animation...'', ''Saving as MP4...'', skip_message,
              ''Saving as GIF...'']
         \<and> save_calls (main e) = [''clt_animation1.gif'']
         \<and> ''clt_animation.mp4'' \<notin> set (files (main e))
         \<and> unhandled (main e) = (case gif_save e of Done \<Rightarrow> None | Raises x msg \<Rightarrow> Some x)
         \<and> (gif_save e = Done \<longrightarrow>
               files (main e) = [''clt_animation1.gif''] \<and> unhandled (main e) = None)"
proof -
  let ?r = "print skip_message (print ''Saving as MP4...'' (print ''Generating CLT animation...''
                   \<lparr>stdout = [], save_calls = [], files = [], unhandled = None\<rparr>))"
  have m: "main e = export_gif e ?r"
    using assms by (simp add: main_def)
  have out: "stdout ?r = [''Generating CLT animation...'', ''Saving as MP4...'', skip_message]"
    and sc: "save_calls ?r = []" and fl: "files ?r = []" and un: "unhandled ?r = None"
    by (simp_all add: print_def)
  have "take 4 (stdout (main e)) = stdout ?r @ [''Saving as GIF...'']"
    using export_gif_fields(4) [of ?r e] unfolding m out by (simp add: numeral_eq_Suc)
  then have 1: "take 4 (stdout (main e))
           = [''Generating CLT animation...'', ''Saving as MP4...'', skip_message,
              ''Saving as GIF...'']"
    unfolding out by simp
  have 2: "save_calls (main e) = [''clt_animation1.gif'']"
    unfolding m export_gif_fields sc by simp
  have 3: "files (main e) = (case gif_save e of Done \<Rightarrow> [''clt_animation1.gif''] | Raises x msg \<Rightarrow> [])"
    by (simp add: m export_gif_fields fl split: outcome.splits)
  have 4: "unhandled (main e) = (case gif_save e of Done \<Rightarrow> None | Raises x msg \<Rightarrow> Some x)"
    by (simp add: m export_gif_fields un split: outcome.splits)
  from 3 have 5: "''clt_animation.mp4'' \<notin> set (files (main e))"
    by (simp split: outcome.splits)
  from 1 2 3 4 5 show ?thesis by (simp split: outcome.splits)
qed

theorem missing_encoder_skips_mp4_witness:
  "ffmpeg_path \<lparr>ffmpeg_path = None, mp4_save = Raises FileNotFoundError ''ffmpeg'', gif_save = Done\<rparr> = None
   \<and> take 4 (stdout (main \<lparr>ffmpeg_path = None, mp4_save = Raises FileNotFoundError ''ffmpeg'', gif_save = Done\<rparr>))
           = [''Generating CLT animation...'', ''Saving as MP4...'', skip_message,
              ''Saving as GIF...'']
   \<and> save_calls (main \<lparr>ffmpeg_path = None, mp4_save = Raises FileNotFoundError ''ffmpeg'', gif_save = Done\<rparr>) = [''clt_animation1.gif'']
   \<and> files (main \<lparr>ffmpeg_path = None, mp4_save = Raises FileNotFoundError ''ffmpeg'', gif_save = Done\<rparr>) = [''clt_animation1.gif'']
   \<and> unhandled (main \<lparr>ffmpeg_path = None, mp4_save = Raises FileNotFoundError ''ffmpeg'', gif_save = Done\<rparr>) = None"
  using missing_encoder_skips_mp4
          [of "\<lparr>ffmpeg_path = None, mp4_save = Raises FileNotFoundError ''ffmpeg'', gif_save = Done\<rparr>"]
  by simp

section \<open>The frames of the violin animation\<close>

lemma progression_100: "sample_size_progression 100 = map (\<lambda>k. 5 + int k * 5) [0..<20]"
  by (simp add: sample_size_progression_def py_range_def)

lemma take_upt_min: "take m [0..<n] = [0..<min m n]"
  by (cases "m \<le> n") (simp_all add: min_def)

lemma hd_map_upt: "0 < n \<Longrightarrow> hd (map f [0..<n]) = f 0"
  by (simp add: hd_conv_nth)

lemma last_map_upt: "0 < n \<Longrightarrow> last (map f [0..<n]) = f (n - 1)"
  by (simp add: last_conv_nth)

lemma current_sizes:
  "take (frame + 1) (sample_size_progression 100)
     = map (\<lambda>k. 5 + int k * 5) [0..<min (frame + 1) 20]"
  by (simp only: progression_100 take_map take_upt_min)

lemma linspace_length: "length (np_linspace_int start stop num) = num"
  by (simp add: np_linspace_int_def)

lemma linspace_bound:
  assumes "i \<in> set (np_linspace_int 0 stop num)" and "2 \<le> num"
  shows "i \<le> stop"
proof -
  have "i = stop \<or> (\<exists>j<num - 1. i = nat \<lfloor>real j * (real stop / real (num - 1))\<rfloor>)"
    using assms by (auto simp: np_linspace_int_def)
  then show ?thesis
  proof
    assume "i = stop" then show ?thesis by simp
  next
    assume "\<exists>j<num - 1. i = nat \<lfloor>real j * (real stop / real (num - 1))\<rfloor>"
    then obtain j where j: "j < num - 1" "i = nat \<lfloor>real j * (real stop / real (num - 1))\<rfloor>"
      by blast
    have pos: "0 < real (num - 1)" using assms(2) by simp
    have "real j * (real stop / real (num - 1)) \<le> real (num - 1) * (real stop / real (num - 1))"
      using j(1) by (intro mult_right_mono) simp_all
    also have "\<dots> = real stop" using pos by simp
    finally have "\<lfloor>real j * (real stop / real (num - 1))\<rfloor> \<le> int stop"
      by (simp add: floor_le_iff)
    then show ?thesis using j(2) by simp
  qed
qed

lemma linspace_hd: "2 \<le> num \<Longrightarrow> hd (np_linspace_int 0 stop num) = 0"
  by (simp add: np_linspace_int_def upt_conv_Cons hd_append)

lemma linspace_last: "2 \<le> num \<Longrightarrow> last (np_linspace_int start stop num) = stop"
  by (simp add: np_linspace_int_def)

lemma index_all_ok:
  assumes "\<forall>i\<in>set idx. i < length xs"
  shows "index_all xs idx = Inr (map ((!) xs) idx)"
  using assms by (induction idx) (simp_all add: py_index_def)

lemma display_sizes_ok:
  assumes "current \<noteq> []"
  shows "\<exists>ds. display_sizes current = Inr ds
           \<and> length ds = min (length current) 8
           \<and> set ds \<subseteq> set current
           \<and> hd ds = hd current \<and> last ds = last current"
proof (cases "length current \<le> 4")
  case True
  then show ?thesis by (simp add: display_sizes_def)
next
  case False
  let ?n = "length current"
  let ?idx = "np_linspace_int 0 (?n - 1) (min 8 ?n)"
  have num: "2 \<le> min 8 ?n" using False by simp
  have bound: "\<forall>i\<in>set ?idx. i < ?n"
  proof
    fix i assume "i \<in> set ?idx"
    from linspace_bound [OF this num] False show "i < ?n" by simp
  qed
  have ne: "?idx \<noteq> []"
    using linspace_length [of 0 "?n - 1" "min 8 ?n"] num by auto
  have ds: "display_sizes current = Inr (map ((!) current) ?idx)"
    using False index_all_ok [OF bound] by (simp add: display_sizes_def)
  have len: "length (map ((!) current) ?idx) = min ?n 8"
    by (simp add: linspace_length min.commute)
  have sub: "set (map ((!) current) ?idx) \<subseteq> set current"
    using bound by auto
  have h: "hd (map ((!) current) ?idx) = hd current"
    using ne linspace_hd [OF num, of "?n - 1"] assms by (simp add: hd_map hd_conv_nth)
  have l: "last (map ((!) current) ?idx) = last current"
    using ne linspace_last [OF num, of 0 "?n - 1"] assms by (simp add: last_map last_conv_nth)
  from ds len sub h l show ?thesis by blast
qed

lemma loop_explicit:
  assumes "population \<noteq> []" and "1 \<le> sample_size"
  shows "\<exists>ms. accumulate_sample_means population sample_size c g
                 = Inr (ms, advance (c * nat sample_size) g)
              \<and> length ms = c
              \<and> (\<forall>i<c. ms ! i = ndarray_mean
                     (map (\<lambda>t. population ! (g (i * nat sample_size + t) mod length population))
                        [0..<nat sample_size]))"
proof -
  from loop_general [OF assms, of c g "[]"]
  obtain ms where ms: "sample_means_loop population sample_size c g [] 
                 = Inr (ms, advance (c * nat sample_size) g)" "length ms = c"
     "\<forall>k<c. draw_sample_mean population sample_size (advance (k * nat sample_size) g)
                         = Inr (ms ! k, advance (Suc k * nat sample_size) g)"
    by auto
  have "\<forall>i<c. ms ! i = ndarray_mean
                     (map (\<lambda>t. population ! (g (i * nat sample_size + t) mod length population))
                        [0..<nat sample_size])"
  proof (intro allI impI)
    fix i assume "i < c"
    with ms(3) have "draw_sample_mean population sample_size (advance (i * nat sample_size) g)
                         = Inr (ms ! i, advance (Suc i * nat sample_size) g)" by blast
    then show "ms ! i = ndarray_mean
                     (map (\<lambda>t. population ! (g (i * nat sample_size + t) mod length population))
                        [0..<nat sample_size])"
      unfolding draw_ok [OF assms] by (simp add: advance_def add.commute)
  qed
  with ms(1,2) show ?thesis by (auto simp: accumulate_sample_means_def)
qed


lemma violin_means_explicit:
  assumes "population \<noteq> []" and "\<forall>s\<in>set sizes. 1 \<le> s"
  shows "\<exists>vs. violin_means population sizes g
                 = Inr (vs, advance (1000 * sum_list (map nat sizes)) g)
           \<and> map fst vs = sizes
           \<and> (\<forall>k<length sizes. length (snd (vs ! k)) = 1000
                 \<and> (\<forall>i<1000. snd (vs ! k) ! i = ndarray_mean
                       (map (\<lambda>t. population !
                                 (g (1000 * sum_list (map nat (take k sizes))
                                       + i * nat (sizes ! k) + t) mod length population))
                          [0..<nat (sizes ! k)])))"
  using assms(2)
proof (induction sizes arbitrary: g)
  case Nil
  then show ?case by (simp add: advance_0)
next
  case (Cons s sizes)
  have s1: "1 \<le> s" using Cons.prems by simp
  from loop_explicit [OF assms(1) s1, of 1000 g]
  obtain ms where ms: "accumulate_sample_means population s 1000 g
                         = Inr (ms, advance (1000 * nat s) g)"
    "length ms = 1000"
    "\<forall>i<1000. ms ! i = ndarray_mean
        (map (\<lambda>t. population ! (g (i * nat s + t) mod length population)) [0..<nat s])"
    by (elim exE conjE)
  let ?g1 = "advance (1000 * nat s) g"
  have p: "\<forall>s\<in>set sizes. 1 \<le> s" using Cons.prems by simp
  from Cons.IH [OF p, of ?g1]
  obtain vs where vs: "violin_means population sizes ?g1
                 = Inr (vs, advance (1000 * sum_list (map nat sizes)) ?g1)"
    "map fst vs = sizes"
    "\<forall>k<length sizes. length (snd (vs ! k)) = 1000
                 \<and> (\<forall>i<1000. snd (vs ! k) ! i = ndarray_mean
                       (map (\<lambda>t. population !
                                 (?g1 (1000 * sum_list (map nat (take k sizes))
                                       + i * nat (sizes ! k) + t) mod length population))
                          [0..<nat (sizes ! k)]))"
    by (elim exE conjE)
  have r: "violin_means population (s # sizes) g
             = Inr ((s, ms) # vs, advance (1000 * sum_list (map nat (s # sizes))) g)"
    using ms(1) vs(1) by (simp add: advance_advance algebra_simps)
  have f: "map fst ((s, ms) # vs) = s # sizes" using vs(2) by simp
  have e: "\<forall>k<length (s # sizes). length (snd (((s, ms) # vs) ! k)) = 1000
                 \<and> (\<forall>i<1000. snd (((s, ms) # vs) ! k) ! i = ndarray_mean
                       (map (\<lambda>t. population !
                                 (g (1000 * sum_list (map nat (take k (s # sizes)))
                                       + i * nat ((s # sizes) ! k) + t) mod length population))
                          [0..<nat ((s # sizes) ! k)]))"
  proof (intro allI impI)
    fix k assume k: "k < length (s # sizes)"
    show "length (snd (((s, ms) # vs) ! k)) = 1000
                 \<and> (\<forall>i<1000. snd (((s, ms) # vs) ! k) ! i = ndarray_mean
                       (map (\<lambda>t. population !
                                 (g (1000 * sum_list (map nat (take k (s # sizes)))
                                       + i * nat ((s # sizes) ! k) + t) mod length population))
                          [0..<nat ((s # sizes) ! k)]))"
    proof (cases k)
      case 0
      then show ?thesis using ms(2,3) by simp
    next
      case (Suc j)
      then have j: "j < length sizes" using k by simp
      have sh: "\<And>i t. ?g1 (1000 * sum_list (map nat (take j sizes)) + i * nat (sizes ! j) + t)
                  = g (1000 * sum_list (map nat (take (Suc j) (s # sizes)))
                         + i * nat ((s # sizes) ! Suc j) + t)"
        by (simp add: advance_def algebra_simps)
      from vs(3) j have "length (snd (vs ! j)) = 1000
                 \<and> (\<forall>i<1000. snd (vs ! j) ! i = ndarray_mean
                       (map (\<lambda>t. population !
                                 (?g1 (1000 * sum_list (map nat (take j sizes))
                                       + i * nat (sizes ! j) + t) mod length population))
                          [0..<nat (sizes ! j)]))"
        by blast
      then show ?thesis unfolding Suc sh by simp
    qed
  qed
  show ?case by (intro exI [of _ "(s, ms) # vs"] conjI r f e)
qed

lemma linspace_all: "2 \<le> n \<Longrightarrow> np_linspace_int 0 (n - 1) n = [0..<n]"
proof -
  assume n: "2 \<le> n"
  have "map (\<lambda>i. nat \<lfloor>real 0 + real i * ((real (n - 1) - real 0) / real (n - 1))\<rfloor>) [0..<n - 1]
          = map (\<lambda>i. i) [0..<n - 1]"
    using n by (intro map_cong) simp_all
  then have "np_linspace_int 0 (n - 1) n = [0..<n - 1] @ [n - 1]"
    using n by (simp add: np_linspace_int_def)
  also have "\<dots> = [0..<n]" using n by (metis Suc_diff_1 less_le_trans pos2 upt_Suc_append zero_le)
  finally show ?thesis .
qed

lemma display_sizes_small:
  assumes "length current \<le> 8"
  shows "display_sizes current = Inr current"
proof (cases "length current \<le> 4")
  case True
  then show ?thesis by (simp add: display_sizes_def)
next
  case False
  let ?n = "length current"
  have m: "min 8 ?n = ?n" using assms by simp
  have "np_linspace_int 0 (?n - 1) ?n = [0..<?n]" using False by (intro linspace_all) simp
  moreover have "index_all current [0..<?n] = Inr (map ((!) current) [0..<?n])"
    by (rule index_all_ok) simp
  ultimately show ?thesis using False by (simp add: display_sizes_def m map_nth)
qed

lemma violin_data_in_range:
  assumes "population \<noteq> []" and "1 \<le> s" and "s \<le> 100"
    and "\<forall>x\<in>set population. \<bar>x\<bar> * 100 \<le> 2 ^ 53"
  shows "\<exists>m. ndarray_mean (map (\<lambda>t. population ! (g (off + t) mod length population))
                              [0..<nat s]) = Fin m
           \<and> real_of_int (Min (set population)) \<le> m
           \<and> m \<le> real_of_int (Max (set population))"
proof (rule ndarray_mean_between)
  show "map (\<lambda>t. population ! (g (off + t) mod length population)) [0..<nat s] \<noteq> []"
    using assms(2) by simp
  show "set (map (\<lambda>t. population ! (g (off + t) mod length population)) [0..<nat s])
          \<subseteq> set population"
    using assms(1) by auto
  show "\<forall>x\<in>set population.
          \<bar>x\<bar> * int (length (map (\<lambda>t. population ! (g (off + t) mod length population))
                                  [0..<nat s])) \<le> 2 ^ 53"
  proof
    fix x assume "x \<in> set population"
    then have "\<bar>x\<bar> * 100 \<le> 2 ^ 53" using assms(4) by blast
    moreover have "\<bar>x\<bar> * s \<le> \<bar>x\<bar> * 100" using assms(3) by (intro mult_left_mono) simp_all
    ultimately show "\<bar>x\<bar> * int (length (map (\<lambda>t. population ! (g (off + t) mod length population))
                                  [0..<nat s])) \<le> 2 ^ 53"
      using assms(2) by simp
  qed
qed

lemma ndarray_mean_sevens: "ndarray_mean (map (\<lambda>t. 7) [0..<10]) = Fin 7"
proof -
  have "ndarray_mean (map (\<lambda>t. 7) [0..<10])
          = Fin (fl64 (real_of_int (sum_list (map (\<lambda>t. 7) [0..<10]))
                        / real (length (map (\<lambda>t. 7 :: int) [0..<10]))))"
    by (rule ndarray_mean_exact) (simp_all add: sum_list_triv comp_def)
  moreover have "fl64 7 = 7" using fl64_int [of 7] by simp
  ultimately show ?thesis by (simp add: sum_list_triv)
qed


text \<open>
  C10. With \<open>max_sample_size = 100\<close>, frame \<open>f\<close> of the violin animation shows
  \<open>min(f + 1, 8)\<close> violins, whose sample sizes are among the first \<open>f + 1\<close> elements of the
  progression \<open>5, 10, ..., 100\<close> (all of them, in order, while \<open>f < 8\<close>); the smallest
  is 5 and the largest is the last of these elements, which for the frames \<open>f < 20\<close> of
  the animation is the element at index \<open>f\<close>. Each violin holds exactly 1000 sample
  means drawn in this frame: the \<open>i\<close>-th mean of the \<open>k\<close>-th violin, of sample size
  \<open>s\<close>, is the mean of the \<open>s\<close> population values that the generator picks next, after
  the 1000 samples of each violin before it and the \<open>i\<close> samples before it in its own
  violin; the frame leaves the generator behind all these draws.
\<close>

theorem violin_frame:
  assumes "population \<noteq> []"
  shows "\<exists>violins g'.
           violin_update population 100 frame g
             = Inr (violins, 5 * int (min (frame + 1) 20), g')
           \<and> length violins = min (frame + 1) 8
           \<and> set (map fst violins) \<subseteq> set (take (frame + 1) (sample_size_progression 100))
           \<and> (frame < 8 \<longrightarrow> map fst violins = take (frame + 1) (sample_size_progression 100))
           \<and> Min (fst ` set violins) = 5
           \<and> Max (fst ` set violins) = 5 * int (min (frame + 1) 20)
           \<and> (frame < 20 \<longrightarrow>
                 Max (fst ` set violins) = sample_size_progression 100 ! frame)
           \<and> (\<forall>k<length violins. length (snd (violins ! k)) = 1000
                 \<and> (\<forall>i<1000. snd (violins ! k) ! i = ndarray_mean
                       (map (\<lambda>t. population !
                                 (g (1000 * sum_list (map nat (take k (map fst violins)))
                                       + i * nat (fst (violins ! k)) + t) mod length population))
                          [0..<nat (fst (violins ! k))])))
           \<and> ((\<forall>x\<in>set population. \<bar>x\<bar> * 100 \<le> 2 ^ 53) \<longrightarrow>
                 (\<forall>k<length violins. \<forall>i<1000.
                     \<exists>m. snd (violins ! k) ! i = Fin m
                       \<and> real_of_int (Min (set population)) \<le> m
                       \<and> m \<le> real_of_int (Max (set population))))
           \<and> g' = advance (1000 * sum_list (map nat (map fst violins))) g"
proof -
  let ?L = "min (frame + 1) 20"
  let ?cur = "take (frame + 1) (sample_size_progression 100)"
  have cur: "?cur = map (\<lambda>k. 5 + int k * 5) [0..<?L]" by (rule current_sizes)
  have Lpos: "0 < ?L" by simp
  have ne: "?cur \<noteq> []" unfolding cur using Lpos by simp
  have len: "length ?cur = ?L" unfolding cur by simp
  have hd_cur: "hd ?cur = 5"
  proof -
    have "hd ?cur = 5 + int 0 * 5" unfolding cur by (rule hd_map_upt [OF Lpos])
    then show ?thesis by simp
  qed
  have last_cur: "last ?cur = 5 * int ?L"
  proof -
    have "last ?cur = 5 + int (?L - 1) * 5" unfolding cur by (rule last_map_upt [OF Lpos])
    also have "\<dots> = 5 * int ?L" using Lpos by (simp add: algebra_simps of_nat_diff)
    finally show ?thesis .
  qed
  have range_cur: "\<forall>s\<in>set ?cur. 5 \<le> s \<and> s \<le> 5 * int ?L"
    unfolding cur by auto
  from display_sizes_ok [OF ne] obtain ds where ds:
    "display_sizes ?cur = Inr ds" "length ds = min (length ?cur) 8" "set ds \<subseteq> set ?cur"
    "hd ds = hd ?cur" "last ds = last ?cur"
    by blast
  have small: "frame < 8 \<longrightarrow> ds = ?cur"
  proof
    assume "frame < 8"
    then have "length ?cur \<le> 8" using len by simp
    from display_sizes_small [OF this] ds(1) show "ds = ?cur" by simp
  qed
  have lds: "length ds = min (frame + 1) 8" using ds(2) len by simp
  then have dne: "ds \<noteq> []" by auto
  have ds_range: "\<forall>s\<in>set ds. 5 \<le> s \<and> s \<le> 5 * int ?L" using ds(3) range_cur by blast
  then have ds_pos: "\<forall>s\<in>set ds. 1 \<le> s" by auto
  from violin_means_explicit [OF assms ds_pos, of g] obtain vs where vs:
    "violin_means population ds g = Inr (vs, advance (1000 * sum_list (map nat ds)) g)"
    "map fst vs = ds"
    "\<forall>k<length ds. length (snd (vs ! k)) = 1000
                 \<and> (\<forall>i<1000. snd (vs ! k) ! i = ndarray_mean
                       (map (\<lambda>t. population !
                                 (g (1000 * sum_list (map nat (take k ds))
                                       + i * nat (ds ! k) + t) mod length population))
                          [0..<nat (ds ! k)]))"
    by (elim exE conjE)
  have lvs: "length vs = length ds" using vs(2) by (metis length_map)
  have vne: "vs \<noteq> []" using lvs dne by auto
  have upd: "violin_update population 100 frame g
               = Inr (vs, 5 * int ?L, advance (1000 * sum_list (map nat ds)) g)"
    using ds(1) vs(1) vne last_cur by (simp add: violin_update_def Let_def)
  have img: "fst ` set vs = set ds" using vs(2) by (metis set_map)
  have "5 \<in> set ds" using ds(4) hd_cur dne by (metis hd_in_set)
  then have mn: "Min (set ds) = 5" using ds_range by (intro Min_eqI) auto
  have "5 * int ?L \<in> set ds" using ds(5) last_cur dne by (metis last_in_set)
  then have mx: "Max (set ds) = 5 * int ?L" using ds_range by (intro Max_eqI) auto
  have nth: "frame < 20 \<longrightarrow> sample_size_progression 100 ! frame = 5 * int ?L"
    by (auto simp: progression_100 algebra_simps)
  have data: "\<forall>k<length vs. length (snd (vs ! k)) = 1000
                 \<and> (\<forall>i<1000. snd (vs ! k) ! i = ndarray_mean
                       (map (\<lambda>t. population !
                                 (g (1000 * sum_list (map nat (take k (map fst vs)))
                                       + i * nat (fst (vs ! k)) + t) mod length population))
                          [0..<nat (fst (vs ! k))]))"
  proof (intro allI impI)
    fix k assume k: "k < length vs"
    then have kd: "k < length ds" using lvs by simp
    have fk: "fst (vs ! k) = ds ! k" using vs(2) k by (metis nth_map)
    from vs(3) kd show "length (snd (vs ! k)) = 1000
                 \<and> (\<forall>i<1000. snd (vs ! k) ! i = ndarray_mean
                       (map (\<lambda>t. population !
                                 (g (1000 * sum_list (map nat (take k (map fst vs)))
                                       + i * nat (fst (vs ! k)) + t) mod length population))
                          [0..<nat (fst (vs ! k))]))"
      unfolding vs(2) fk by blast
  qed
  have c1: "length vs = min (frame + 1) 8" using lvs lds by simp
  have c2: "set (map fst vs) \<subseteq> set ?cur" unfolding vs(2) by (rule ds(3))
  have c3: "frame < 8 \<longrightarrow> map fst vs = ?cur" unfolding vs(2) by (rule small)
  have c4: "Min (fst ` set vs) = 5" unfolding img by (rule mn)
  have c5: "Max (fst ` set vs) = 5 * int ?L" unfolding img by (rule mx)
  have c6: "frame < 20 \<longrightarrow> Max (fst ` set vs) = sample_size_progression 100 ! frame"
    using c5 nth by simp
  have c7: "advance (1000 * sum_list (map nat ds)) g
              = advance (1000 * sum_list (map nat (map fst vs))) g"
    unfolding vs(2) ..
  have rng: "(\<forall>x\<in>set population. \<bar>x\<bar> * 100 \<le> 2 ^ 53) \<longrightarrow>
                 (\<forall>k<length vs. \<forall>i<1000.
                     \<exists>m. snd (vs ! k) ! i = Fin m
                       \<and> real_of_int (Min (set population)) \<le> m
                       \<and> m \<le> real_of_int (Max (set population)))"
  proof (intro impI allI)
    fix k i :: nat
    assume small: "\<forall>x\<in>set population. \<bar>x\<bar> * 100 \<le> 2 ^ 53"
      and k: "k < length vs" and i: "i < 1000"
    have "fst (vs ! k) \<in> set ds" using vs(2) k by (metis nth_map nth_mem lvs)
    then have s1: "1 \<le> fst (vs ! k)" and s100: "fst (vs ! k) \<le> 100"
      using ds_range by auto
    from data k i have eq: "snd (vs ! k) ! i = ndarray_mean
                       (map (\<lambda>t. population !
                                 (g (1000 * sum_list (map nat (take k (map fst vs)))
                                       + i * nat (fst (vs ! k)) + t) mod length population))
                          [0..<nat (fst (vs ! k))])"
      by blast
    show "\<exists>m. snd (vs ! k) ! i = Fin m
                       \<and> real_of_int (Min (set population)) \<le> m
                       \<and> m \<le> real_of_int (Max (set population))"
      unfolding eq by (rule violin_data_in_range [OF assms s1 s100 small])
  qed
  show ?thesis
    by (intro exI [of _ vs] exI [of _ "advance (1000 * sum_list (map nat ds)) g"]
          conjI upd c1 c2 c3 c4 c5 c6 data rng c7)
qed


theorem violin_frame_witness:
  "[7 :: int] \<noteq> [] \<and> (5::nat) < 8 \<and> (5::nat) < 20
   \<and> (\<exists>violins g'.
           violin_update [7] 100 5 (\<lambda>i. 0) = Inr (violins, 30, g')
           \<and> length violins = 6
           \<and> map fst violins = [5, 10, 15, 20, 25, 30]
           \<and> Min (fst ` set violins) = 5
           \<and> Max (fst ` set violins) = sample_size_progression 100 ! 5
           \<and> 1 < length violins \<and> length (snd (violins ! 1)) = 1000
           \<and> (2::nat) < 1000 \<and> snd (violins ! 1) ! 2 = Fin 7
           \<and> \<bar>7::int\<bar> * 100 \<le> 2 ^ 53
           \<and> (\<exists>m. snd (violins ! 1) ! 2 = Fin m
                  \<and> real_of_int (Min (set [7])) \<le> m \<and> m \<le> real_of_int (Max (set [7]))))"
proof -
  have h: "[7 :: int] \<noteq> []" "(5::nat) < 8" "(5::nat) < 20" by simp_all
  from violin_frame [OF h(1), of 5 "\<lambda>i. 0"]
  obtain violins g' where v:
    "violin_update [7] 100 5 (\<lambda>i. 0) = Inr (violins, 5 * int (min (5 + 1) 20), g')"
    "length violins = min (5 + 1) 8"
    "(5::nat) < 8 \<longrightarrow> map fst violins = take (5 + 1) (sample_size_progression 100)"
    "Min (fst ` set violins) = 5"
    "(5::nat) < 20 \<longrightarrow> Max (fst ` set violins) = sample_size_progression 100 ! 5"
    "\<forall>k<length violins. length (snd (violins ! k)) = 1000
                 \<and> (\<forall>i<1000. snd (violins ! k) ! i = ndarray_mean
                       (map (\<lambda>t. [7] !
                                 ((\<lambda>i. 0) (1000 * sum_list (map nat (take k (map fst violins)))
                                       + i * nat (fst (violins ! k)) + t) mod length [7 :: int]))
                          [0..<nat (fst (violins ! k))]))"
    "(\<forall>x\<in>set [7 :: int]. \<bar>x\<bar> * 100 \<le> 2 ^ 53) \<longrightarrow>
       (\<forall>k<length violins. \<forall>i<1000.
           \<exists>m. snd (violins ! k) ! i = Fin m
             \<and> real_of_int (Min (set [7])) \<le> m \<and> m \<le> real_of_int (Max (set [7])))"
    by (elim exE conjE)
  have l: "length violins = 6" using v(2) by simp
  have sizes: "map fst violins = [5, 10, 15, 20, 25, 30]"
    using v(3) h(2) by (simp add: progression_100 numeral_eq_Suc upt_rec)
  have k1: "1 < length violins" using l by simp
  have f1: "fst (violins ! 1) = 10"
    using sizes k1 by (metis nth_map nth_Cons_0 nth_Cons_Suc One_nat_def)
  from v(6) k1 have d: "length (snd (violins ! 1)) = 1000"
    and e: "\<forall>i<1000. snd (violins ! 1) ! i = ndarray_mean
                       (map (\<lambda>t. [7] !
                                 ((\<lambda>i. 0) (1000 * sum_list (map nat (take 1 (map fst violins)))
                                       + i * nat (fst (violins ! 1)) + t) mod length [7 :: int]))
                          [0..<nat (fst (violins ! 1))])"
    by blast+
  have i2: "(2::nat) < 1000" by simp
  from e i2 have "snd (violins ! 1) ! 2 = ndarray_mean
                       (map (\<lambda>t. [7] !
                                 ((\<lambda>i. 0) (1000 * sum_list (map nat (take 1 (map fst violins)))
                                       + 2 * nat (fst (violins ! 1)) + t) mod length [7 :: int]))
                          [0..<nat (fst (violins ! 1))])"
    by blast
  then have m: "snd (violins ! 1) ! 2 = Fin 7"
    unfolding f1 using ndarray_mean_sevens by simp
  have u: "violin_update [7] 100 5 (\<lambda>i. 0) = Inr (violins, 30, g')" using v(1) by simp
  have mx: "Max (fst ` set violins) = sample_size_progression 100 ! 5" using v(5) h(3) by blast
  have b7: "\<bar>7::int\<bar> * 100 \<le> 2 ^ 53" by simp
  then have "\<forall>x\<in>set [7 :: int]. \<bar>x\<bar> * 100 \<le> 2 ^ 53" by simp
  with v(7) k1 i2
  have r: "\<exists>m. snd (violins ! 1) ! 2 = Fin m
             \<and> real_of_int (Min (set [7])) \<le> m \<and> m \<le> real_of_int (Max (set [7]))"
    by blast
  show ?thesis
    by (intro conjI exI [of _ violins] exI [of _ g'] h u l sizes v(4) mx k1 d i2 m b7 r)
qed

end
